theory Spec2Isabelle
  imports Main "HOL-Library.Sublist" "HOL-Library.AList" "HOL-Library.Multiset"
begin

section \<open>Python strings\<close>

text \<open>
  A Python \<open>str\<close> is modelled as a \<open>string\<close>; a \<open>char\<close> stands for the code point
  of the same number, so the model covers the texts whose code points are below 256.
  On these, \<open>str.lower\<close> maps \<open>A..Z\<close> and the capital letters \<open>U+00C0..U+00DE\<close>
  (without the multiplication sign \<open>U+00D7\<close>) to the code point 32 above.
\<close>

definition char_lower :: "char \<Rightarrow> char" where
  "char_lower c =
     (let n = (of_char c :: nat) in
      if (65 \<le> n \<and> n \<le> 90) \<or> (192 \<le> n \<and> n \<le> 222 \<and> n \<noteq> 215)
      then char_of (n + 32) else c)"

definition lower :: "string \<Rightarrow> string" where
  "lower s = map char_lower s"

definition endswith :: "string \<Rightarrow> string \<Rightarrow> bool" where
  "endswith s t = suffix t s"

definition lstrip_chars :: "char set \<Rightarrow> string \<Rightarrow> string" where
  "lstrip_chars cs s = dropWhile (\<lambda>c. c \<in> cs) s"

definition rstrip_chars :: "char set \<Rightarrow> string \<Rightarrow> string" where
  "rstrip_chars cs s = rev (dropWhile (\<lambda>c. c \<in> cs) (rev s))"

definition strip_chars :: "char set \<Rightarrow> string \<Rightarrow> string" where
  "strip_chars cs s = rstrip_chars cs (lstrip_chars cs s)"

section \<open>The URL normalizer\<close>

text \<open>
  \<open>normalize_url\<close> calls four functions of Python's \<open>urllib.parse\<close>, which is not part
  of the repository. They are parameters of the model: a \<open>urllib\<close> gives each of them as
  a function that returns its result or the exception it raises.
\<close>

datatype exn = ValueError | UnicodeEncodeError | Unmodelled

record split_result =
  scheme :: string
  netloc :: string
  path :: string
  query :: string
  fragment :: string

record urllib =
  urlsplit :: "string \<Rightarrow> exn + split_result"
  parse_qsl :: "string \<Rightarrow> exn + (string \<times> string) list"
  urlencode :: "(string \<times> string) list \<Rightarrow> exn + string"
  urlunsplit :: "split_result \<Rightarrow> exn + string"

definition COMMON_TRACKING_PARAMS :: "string set" where
  "COMMON_TRACKING_PARAMS =
     {''utm_source'', ''utm_medium'', ''utm_campaign'', ''utm_term'', ''utm_content'',
      ''utm_id'', ''gclid'', ''fbclid'', ''mc_cid'', ''mc_eid'', ''igshid'', ''ref''}"

text \<open>Lines 19 and 20 of \<open>normalize_url\<close>: the path that is reassembled.\<close>

definition normalize_path :: "string \<Rightarrow> string" where
  "normalize_path p =
     (if endswith p ''/'' \<and> p \<noteq> ''/'' then rstrip_chars {CHR ''/''} p else p)"

text \<open>The body of the \<open>try\<close> block: \<open>Inl\<close> is an exception that leaves it.\<close>

definition normalize_url_body :: "urllib \<Rightarrow> string \<Rightarrow> exn + string" where
  "normalize_url_body L u =
     (case urlsplit L u of
        Inl e \<Rightarrow> Inl e
      | Inr s \<Rightarrow>
          (case parse_qsl L (query s) of
             Inl e \<Rightarrow> Inl e
           | Inr query_pairs \<Rightarrow>
               (let filtered = filter (\<lambda>(k, v). k \<notin> COMMON_TRACKING_PARAMS) query_pairs
                in case urlencode L filtered of
                     Inl e \<Rightarrow> Inl e
                   | Inr q \<Rightarrow>
                       (case urlunsplit L
                               \<lparr>scheme = lower (scheme s), netloc = lower (netloc s),
                                path = normalize_path (path s), query = q, fragment = ''''\<rparr> of
                          Inl e \<Rightarrow> Inl e
                        | Inr r \<Rightarrow> Inr (if r \<noteq> [] then r else u)))))"

text \<open>\<open>except Exception: return u\<close>.\<close>

definition normalize_url :: "urllib \<Rightarrow> string \<Rightarrow> string" where
  "normalize_url L u = (case normalize_url_body L u of Inl e \<Rightarrow> u | Inr r \<Rightarrow> r)"

section \<open>The bookmark tree\<close>

type_synonym attrs = "(string \<times> string) list"

record bookmark =
  href :: string
  title :: string
  attrs :: attrs

text \<open>
  The children of a folder are a list of objects: a bookmark, a folder, or anything
  else, which both engines skip.
\<close>

datatype folder = Folder (name: string) (fattrs: attrs) (children: "node list")
  and node = BookmarkNode bookmark | FolderNode folder | UnknownNode

section \<open>The dedupe-and-prune engine\<close>

record url_stats =
  urls_kept :: int
  urls_removed :: int

record stats = url_stats +
  folders_pruned :: int

text \<open>
  \<open>prune_and_dedupe\<close> mutates the set \<open>seen\<close> and the dictionary \<open>stats\<close>; the model
  returns them with the folder. \<open>prune_children\<close> is the loop over \<open>folder.children\<close>,
  its first component the list \<open>new_children\<close>. The source returns the folder itself
  on every path, and a dataclass instance is true, so that \<open>pruned and pruned.children\<close>
  tests the children alone.
\<close>

fun prune_and_dedupe :: "urllib \<Rightarrow> folder \<Rightarrow> string set \<Rightarrow> stats \<Rightarrow> folder \<times> string set \<times> stats"
  and prune_children :: "urllib \<Rightarrow> node list \<Rightarrow> string set \<Rightarrow> stats \<Rightarrow> node list \<times> string set \<times> stats"
where
  "prune_and_dedupe L (Folder n a cs) seen st =
     (case prune_children L cs seen st of
        (new_children, seen', st') \<Rightarrow> (Folder n a new_children, seen', st'))"
| "prune_children L [] seen st = ([], seen, st)"
| "prune_children L (BookmarkNode b # rest) seen st =
     (let norm = normalize_url L (href b) in
      if norm \<noteq> [] \<and> norm \<notin> seen
      then (case prune_children L rest (insert norm seen) (st\<lparr>urls_kept := urls_kept st + 1\<rparr>) of
              (new_children, seen', st') \<Rightarrow> (BookmarkNode b # new_children, seen', st'))
      else prune_children L rest seen (st\<lparr>urls_removed := urls_removed st + 1\<rparr>))"
| "prune_children L (FolderNode f # rest) seen st =
     (case prune_and_dedupe L f seen st of
        (pruned, seen1, st1) \<Rightarrow>
          if children pruned \<noteq> []
          then (case prune_children L rest seen1 st1 of
                  (new_children, seen', st') \<Rightarrow> (FolderNode pruned # new_children, seen', st'))
          else prune_children L rest seen1 (st1\<lparr>folders_pruned := folders_pruned st1 + 1\<rparr>))"
| "prune_children L (UnknownNode # rest) seen st = prune_children L rest seen st"

section \<open>A model of \<open>urllib.parse\<close>\<close>

text \<open>
  The four library functions as CPython 3.11 defines them, for texts of code points
  below 256. It is used to run the normalizer on concrete URLs. Two things are left out
  and reported as the exception \<open>Unmodelled\<close>: an authority with both brackets, which
  CPython checks against \<open>ipaddress\<close>, and percent escapes of bytes of 128 or more
  that are not the UTF-8 form of a code point below 256, which CPython decodes to a code
  point of 256 or more or to the replacement character. \<open>_checknetloc\<close> raises for no
  text of code points below 256, as the compatibility normalisation of none of them holds
  one of \<open>/?#@:\<close>.
\<close>

definition WHATWG_C0_CONTROL_OR_SPACE :: "char set" where
  "WHATWG_C0_CONTROL_OR_SPACE = {c. (of_char c :: nat) \<le> 32}"

definition UNSAFE_URL_BYTES_TO_REMOVE :: "char set" where
  "UNSAFE_URL_BYTES_TO_REMOVE = {CHR 0x09, CHR 0x0D, CHR 0x0A}"

definition scheme_chars :: "char set" where
  "scheme_chars = set (''abcdefghijklmnopqrstuvwxyz'' @ ''ABCDEFGHIJKLMNOPQRSTUVWXYZ''
                        @ ''0123456789'' @ ''+-.'')"

definition uses_netloc :: "string set" where
  "uses_netloc = {'''', ''ftp'', ''http'', ''gopher'', ''nntp'', ''telnet'',
                  ''imap'', ''wais'', ''file'', ''mms'', ''https'', ''shttp'',
                  ''snews'', ''prospero'', ''rtsp'', ''rtsps'', ''rtspu'', ''rsync'',
                  ''svn'', ''svn+ssh'', ''sftp'', ''nfs'', ''git'', ''git+ssh'',
                  ''ws'', ''wss''}"

definition is_ascii_alpha :: "char \<Rightarrow> bool" where
  "is_ascii_alpha c =
     (let n = (of_char c :: nat) in (65 \<le> n \<and> n \<le> 90) \<or> (97 \<le> n \<and> n \<le> 122))"

text \<open>\<open>s.partition(c)\<close> without the separator: the text before the first \<open>c\<close> and the text after it.\<close>

definition partition_at :: "char \<Rightarrow> string \<Rightarrow> string \<times> string" where
  "partition_at c s = (takeWhile (\<lambda>x. x \<noteq> c) s, drop 1 (dropWhile (\<lambda>x. x \<noteq> c) s))"

definition split_scheme :: "string \<Rightarrow> string \<times> string" where
  "split_scheme url =
     (let pre = takeWhile (\<lambda>x. x \<noteq> CHR '':'') url in
      if CHR '':'' \<in> set url \<and> pre \<noteq> [] \<and> is_ascii_alpha (hd url)
         \<and> (\<forall>c \<in> set pre. c \<in> scheme_chars)
      then (lower pre, drop (Suc (length pre)) url)
      else ('''', url))"

definition splitnetloc :: "string \<Rightarrow> string \<times> string" where
  "splitnetloc url =
     (let d = (\<lambda>c. c \<in> {CHR ''/'', CHR ''?'', CHR ''#''}) in
      (takeWhile (\<lambda>c. \<not> d c) (drop 2 url), dropWhile (\<lambda>c. \<not> d c) (drop 2 url)))"

definition py_urlsplit :: "string \<Rightarrow> exn + split_result" where
  "py_urlsplit u =
     (let url = filter (\<lambda>c. c \<notin> UNSAFE_URL_BYTES_TO_REMOVE)
                  (lstrip_chars WHATWG_C0_CONTROL_OR_SPACE u);
          (sch, url) = split_scheme url;
          (nl, url) = (if take 2 url = ''//'' then splitnetloc url else ('''', url))
      in if (CHR ''['' \<in> set nl \<and> CHR '']'' \<notin> set nl) \<or> (CHR '']'' \<in> set nl \<and> CHR ''['' \<notin> set nl)
         then Inl ValueError
         else if CHR ''['' \<in> set nl \<and> CHR '']'' \<in> set nl
         then Inl Unmodelled
         else
           (let (url, frag) = (if CHR ''#'' \<in> set url then partition_at (CHR ''#'') url else (url, ''''));
                (url, q) = (if CHR ''?'' \<in> set url then partition_at (CHR ''?'') url else (url, ''''))
            in Inr \<lparr>scheme = sch, netloc = nl, path = url, query = q, fragment = frag\<rparr>))"

definition hex_value :: "char \<Rightarrow> nat option" where
  "hex_value c = map_of (zip ''0123456789abcdef'' [0..<16] @ zip ''ABCDEF'' [10..<16]) c"

fun unquote :: "string \<Rightarrow> exn + string" where
  "unquote (c # a # b # rest) =
     (if c = CHR ''%'' then
        (case (hex_value a, hex_value b) of
           (Some h, Some l) \<Rightarrow>
             (if 16 * h + l < 128
              then (case unquote rest of Inl e \<Rightarrow> Inl e | Inr r \<Rightarrow> Inr (char_of (16 * h + l) # r))
              else
                (case rest of
                   c2 # a2 # b2 # rest2 \<Rightarrow>
                     (case (hex_value a2, hex_value b2) of
                        (Some h2, Some l2) \<Rightarrow>
                          (if c2 = CHR ''%'' \<and> (16 * h + l = 194 \<or> 16 * h + l = 195)
                              \<and> 128 \<le> 16 * h2 + l2 \<and> 16 * h2 + l2 < 192
                           then (case unquote rest2 of
                                   Inl e \<Rightarrow> Inl e
                                 | Inr r \<Rightarrow>
                                     Inr (char_of (64 * (16 * h + l - 194) + (16 * h2 + l2)) # r))
                           else Inl Unmodelled)
                      | _ \<Rightarrow> Inl Unmodelled)
                 | _ \<Rightarrow> Inl Unmodelled))
         | _ \<Rightarrow> (case unquote (a # b # rest) of Inl e \<Rightarrow> Inl e | Inr r \<Rightarrow> Inr (c # r)))
      else (case unquote (a # b # rest) of Inl e \<Rightarrow> Inl e | Inr r \<Rightarrow> Inr (c # r)))"
| "unquote s = Inr s"

definition unquote_plus :: "string \<Rightarrow> exn + string" where
  "unquote_plus s = unquote (map (\<lambda>c. if c = CHR ''+'' then CHR '' '' else c) s)"

fun split_on :: "char \<Rightarrow> string \<Rightarrow> string list" where
  "split_on sep [] = [[]]"
| "split_on sep (c # cs) =
     (if c = sep then [] # split_on sep cs
      else (case split_on sep cs of [] \<Rightarrow> [[c]] | w # ws \<Rightarrow> (c # w) # ws))"

fun parse_fields :: "string list \<Rightarrow> exn + (string \<times> string) list" where
  "parse_fields [] = Inr []"
| "parse_fields (name_value # rest) =
     (if name_value \<noteq> [] then
        (case partition_at (CHR ''='') name_value of
           (n, v) \<Rightarrow>
             (case unquote_plus n of
                Inl e \<Rightarrow> Inl e
              | Inr n' \<Rightarrow>
                  (case unquote_plus v of
                     Inl e \<Rightarrow> Inl e
                   | Inr v' \<Rightarrow>
                       (case parse_fields rest of
                          Inl e \<Rightarrow> Inl e
                        | Inr r \<Rightarrow> Inr ((n', v') # r)))))
      else parse_fields rest)"

definition py_parse_qsl :: "string \<Rightarrow> exn + (string \<times> string) list" where
  "py_parse_qsl qs = (if qs = [] then Inr [] else parse_fields (split_on (CHR ''&'') qs))"

definition ALWAYS_SAFE :: "char set" where
  "ALWAYS_SAFE = set (''ABCDEFGHIJKLMNOPQRSTUVWXYZ'' @ ''abcdefghijklmnopqrstuvwxyz''
                       @ ''0123456789'' @ ''_.-~'')"

definition hex_digit :: "nat \<Rightarrow> char" where
  "hex_digit n = ''0123456789ABCDEF'' ! (n mod 16)"

definition percent_byte :: "nat \<Rightarrow> string" where
  "percent_byte n = [CHR ''%'', hex_digit (n div 16), hex_digit n]"

definition quote_plus_char :: "char \<Rightarrow> string" where
  "quote_plus_char c =
     (let n = (of_char c :: nat) in
      if c \<in> ALWAYS_SAFE then [c]
      else if c = CHR '' '' then ''+''
      else if n < 128 then percent_byte n
      else percent_byte (192 + n div 64) @ percent_byte (128 + n mod 64))"

definition quote_plus :: "string \<Rightarrow> string" where
  "quote_plus s = concat (map quote_plus_char s)"

fun join :: "string \<Rightarrow> string list \<Rightarrow> string" where
  "join sep [] = []"
| "join sep [x] = x"
| "join sep (x # y # ys) = x @ sep @ join sep (y # ys)"

definition py_urlencode :: "(string \<times> string) list \<Rightarrow> exn + string" where
  "py_urlencode pairs = Inr (join ''&'' (map (\<lambda>(k, v). quote_plus k @ ''='' @ quote_plus v) pairs))"

definition py_urlunsplit :: "split_result \<Rightarrow> exn + string" where
  "py_urlunsplit c =
     (let url = path c;
          url = (if netloc c \<noteq> [] \<or> (scheme c \<noteq> [] \<and> scheme c \<in> uses_netloc) \<or> take 2 url = ''//''
                 then ''//'' @ netloc c @ (if url \<noteq> [] \<and> take 1 url \<noteq> ''/'' then ''/'' @ url else url)
                 else url);
          url = (if scheme c \<noteq> [] then scheme c @ '':'' @ url else url);
          url = (if query c \<noteq> [] then url @ ''?'' @ query c else url);
          url = (if fragment c \<noteq> [] then url @ ''#'' @ fragment c else url)
      in Inr url)"

definition py_urllib :: urllib where
  "py_urllib = \<lparr>urlsplit = py_urlsplit, parse_qsl = py_parse_qsl,
                 urlencode = py_urlencode, urlunsplit = py_urlunsplit\<rparr>"


section \<open>Document order and first occurrences\<close>

text \<open>
  The bookmarks of a folder in document order: the depth-first order in which the
  export lists them.
\<close>

fun folder_bookmarks :: "folder \<Rightarrow> bookmark list"
  and nodes_bookmarks :: "node list \<Rightarrow> bookmark list"
where
  "folder_bookmarks (Folder n a cs) = nodes_bookmarks cs"
| "nodes_bookmarks [] = []"
| "nodes_bookmarks (BookmarkNode b # rest) = b # nodes_bookmarks rest"
| "nodes_bookmarks (FolderNode f # rest) = folder_bookmarks f @ nodes_bookmarks rest"
| "nodes_bookmarks (UnknownNode # rest) = nodes_bookmarks rest"

text \<open>
  The bookmark at index \<open>i\<close> of a list with the keys \<open>ks\<close> survives when its key is not
  empty, is not in \<open>seen\<close>, and is the key of no earlier bookmark of the list.
\<close>

definition survives :: "string list \<Rightarrow> string set \<Rightarrow> nat \<Rightarrow> bool" where
  "survives ks seen i = (ks ! i \<noteq> [] \<and> ks ! i \<notin> seen \<and> ks ! i \<notin> set (take i ks))"

definition survivors :: "urllib \<Rightarrow> string set \<Rightarrow> bookmark list \<Rightarrow> bookmark list" where
  "survivors L seen bs =
     map (\<lambda>i. bs ! i)
       (filter (survives (map (\<lambda>b. normalize_url L (href b)) bs) seen) [0..<length bs])"

text \<open>The pass of either engine over a list of bookmarks, with the set \<open>seen\<close>.\<close>

fun dedupe_list :: "urllib \<Rightarrow> string set \<Rightarrow> bookmark list \<Rightarrow> bookmark list \<times> string set" where
  "dedupe_list L seen [] = ([], seen)"
| "dedupe_list L seen (b # bs) =
     (let norm = normalize_url L (href b) in
      if norm \<noteq> [] \<and> norm \<notin> seen
      then (case dedupe_list L (insert norm seen) bs of (kept, seen') \<Rightarrow> (b # kept, seen'))
      else dedupe_list L seen bs)"

text \<open>The number of folders below a folder.\<close>

fun subfolder_count :: "folder \<Rightarrow> nat"
  and nodes_folder_count :: "node list \<Rightarrow> nat"
where
  "subfolder_count (Folder n a cs) = nodes_folder_count cs"
| "nodes_folder_count [] = 0"
| "nodes_folder_count (BookmarkNode b # rest) = nodes_folder_count rest"
| "nodes_folder_count (FolderNode f # rest) = Suc (subfolder_count f + nodes_folder_count rest)"
| "nodes_folder_count (UnknownNode # rest) = nodes_folder_count rest"


section \<open>Example trees\<close>

text \<open>
  The tree \<open>A > [bm1, B > [bm1_dup, bm2]]\<close> under the root, where \<open>bm1_dup\<close> has the
  URL of \<open>bm1\<close> with other letter case, a trailing slash and a tracking parameter.
\<close>

definition bm1 :: bookmark where
  "bm1 = \<lparr>href = ''http://ex.com/x'', title = ''first'', attrs = [(''ADD_DATE'', ''1'')]\<rparr>"
definition bm1_dup :: bookmark where
  "bm1_dup = \<lparr>href = ''http://EX.com/x/?utm_source=n'', title = ''second'', attrs = []\<rparr>"
definition bm2 :: bookmark where
  "bm2 = \<lparr>href = ''http://ex.com/y'', title = ''other'', attrs = []\<rparr>"
definition stats0 :: stats where
  "stats0 = \<lparr>urls_kept = 0, urls_removed = 0, folders_pruned = 0\<rparr>"
definition tree_ab :: folder where
  "tree_ab = Folder ''ROOT'' []
     [FolderNode (Folder ''A'' [] [BookmarkNode bm1,
        FolderNode (Folder ''B'' [] [BookmarkNode bm1_dup, BookmarkNode bm2])])]"


definition tree_ab_pruned :: folder where
  "tree_ab_pruned = Folder ''ROOT'' []
     [FolderNode (Folder ''A'' [] [BookmarkNode bm1,
        FolderNode (Folder ''B'' [] [BookmarkNode bm2])])]"

section \<open>The flatten-and-merge engine\<close>

text \<open>
  \<open>norm_folder_name\<close>: the white space of \<open>\s\<close> and of \<open>str.strip\<close> is, below
  code point 256, the set \<open>is_space\<close>. The characters that the last \<open>strip\<close> removes are
  those of the source's string literal, which holds the two code points \<open>U+00C2\<close> and
  \<open>U+00B7\<close>.
\<close>

definition NBSP :: char where
  "NBSP = CHR 0xA0"

definition is_space :: "char \<Rightarrow> bool" where
  "is_space c =
     (let n = (of_char c :: nat) in
      (9 \<le> n \<and> n \<le> 13) \<or> (28 \<le> n \<and> n \<le> 32) \<or> n = 133 \<or> n = 160)"

function collapse_spaces :: "string \<Rightarrow> string" where
  "collapse_spaces [] = []"
| "collapse_spaces (c # cs) =
     (if is_space c then CHR '' '' # collapse_spaces (dropWhile is_space cs)
      else c # collapse_spaces cs)"
  by pat_completeness auto
termination
  by (relation "measure length") (auto simp: length_dropWhile_le less_Suc_eq_le)

definition folder_name_punctuation :: "char set" where
  "folder_name_punctuation =
     {CHR ''/'', CHR ''|'', CHR ''-'', CHR '':'', CHR ''.'', CHR 0xC2, CHR 0xB7, CHR '';''}"

definition norm_folder_name :: "string \<Rightarrow> string" where
  "norm_folder_name nm =
     (let n = map (\<lambda>c. if c = NBSP then CHR '' '' else c) nm;
          n = lower (strip_chars {c. is_space c} (collapse_spaces n))
      in strip_chars folder_name_punctuation n)"

text \<open>
  The dictionary \<open>buckets\<close> keeps its keys in insertion order, and
  \<open>dedupe_bookmarks_globally\<close> iterates it in that order: it is an association list, a
  new key goes to the end, a known key keeps its place.
\<close>

record bucket =
  display_name :: string
  bookmarks :: "bookmark list"
  h3_attrs :: attrs

type_synonym buckets = "(string \<times> bucket) list"

definition unsorted_key :: string where
  "unsorted_key = ''__unsorted__''"

definition direct_bookmarks :: "node list \<Rightarrow> bookmark list" where
  "direct_bookmarks items = concat (map (\<lambda>it. case it of BookmarkNode b \<Rightarrow> [b] | _ \<Rightarrow> []) items)"

definition bucket_key :: "string option \<Rightarrow> string" where
  "bucket_key folder_name =
     (let key = norm_folder_name (case folder_name of None \<Rightarrow> '''' | Some n \<Rightarrow> n)
      in if key = [] then unsorted_key else key)"

definition name_or :: "string option \<Rightarrow> string \<Rightarrow> string" where
  "name_or folder_name d = (case folder_name of None \<Rightarrow> d | Some n \<Rightarrow> if n = [] then d else n)"

text \<open>
  \<open>add_to_bucket\<close>: \<open>key\<close> is \<open>bucket_key folder_name\<close>, and \<open>name_or\<close> is Python's
  \<open>folder_name or "Unsorted"\<close>.
\<close>

definition add_to_bucket :: "buckets \<Rightarrow> string option \<Rightarrow> attrs \<Rightarrow> node list \<Rightarrow> buckets" where
  "add_to_bucket bs folder_name attrs0 items =
     (let key = bucket_key folder_name;
          b = (case map_of bs key of
                 None \<Rightarrow> \<lparr>display_name = name_or folder_name ''Unsorted'', bookmarks = [],
                           h3_attrs = attrs0\<rparr>
               | Some b \<Rightarrow> b);
          b = (if h3_attrs b = [] then b\<lparr>h3_attrs := attrs0\<rparr> else b)
      in AList.update key (b\<lparr>bookmarks := bookmarks b @ direct_bookmarks items\<rparr>) bs)"

text \<open>
  \<open>walk\<close> tests \<open>node is not root\<close>; the flag \<open>is_root\<close> is true for the call on the
  root alone. \<open>walk_children\<close> is its loop over the child folders.
\<close>

fun walk :: "folder \<Rightarrow> bool \<Rightarrow> buckets \<Rightarrow> buckets"
  and walk_children :: "node list \<Rightarrow> buckets \<Rightarrow> buckets"
where
  "walk (Folder n a cs) is_root bs =
     walk_children cs
       (if \<not> is_root then add_to_bucket bs (Some n) a cs else add_to_bucket bs None [] cs)"
| "walk_children [] bs = bs"
| "walk_children (FolderNode f # rest) bs = walk_children rest (walk f False bs)"
| "walk_children (BookmarkNode b # rest) bs = walk_children rest bs"
| "walk_children (UnknownNode # rest) bs = walk_children rest bs"

definition collect_flat_buckets :: "folder \<Rightarrow> buckets" where
  "collect_flat_buckets root =
     walk root True
       [(unsorted_key, \<lparr>display_name = ''Unsorted'', bookmarks = [], h3_attrs = []\<rparr>)]"

record flat_stats = url_stats +
  folders_total :: int

text \<open>
  \<open>dedupe_bookmarks_globally\<close>: \<open>dedupe_buckets\<close> is the loop over the buckets and
  \<open>dedupe_bookmarks\<close> the loop over the bookmarks of one bucket.
\<close>

fun dedupe_bookmarks :: "urllib \<Rightarrow> bookmark list \<Rightarrow> string set \<Rightarrow> flat_stats \<Rightarrow> bookmark list \<times> string set \<times> flat_stats" where
  "dedupe_bookmarks L [] seen st = ([], seen, st)"
| "dedupe_bookmarks L (bm # rest) seen st =
     (let norm = normalize_url L (href bm) in
      if norm \<noteq> [] \<and> norm \<notin> seen
      then (case dedupe_bookmarks L rest (insert norm seen) (st\<lparr>urls_kept := urls_kept st + 1\<rparr>) of
              (new_list, seen', st') \<Rightarrow> (bm # new_list, seen', st'))
      else dedupe_bookmarks L rest seen (st\<lparr>urls_removed := urls_removed st + 1\<rparr>))"

fun dedupe_buckets :: "urllib \<Rightarrow> buckets \<Rightarrow> string set \<Rightarrow> flat_stats \<Rightarrow> buckets \<times> string set \<times> flat_stats" where
  "dedupe_buckets L [] seen st = ([], seen, st)"
| "dedupe_buckets L ((key, b) # rest) seen st =
     (case dedupe_bookmarks L (bookmarks b) seen st of
        (new_list, seen1, st1) \<Rightarrow>
          (case dedupe_buckets L rest seen1
                  (if new_list \<noteq> [] then st1\<lparr>folders_total := folders_total st1 + 1\<rparr> else st1) of
             (rest', seen', st') \<Rightarrow> ((key, b\<lparr>bookmarks := new_list\<rparr>) # rest', seen', st')))"

definition dedupe_bookmarks_globally :: "urllib \<Rightarrow> buckets \<Rightarrow> buckets \<times> flat_stats" where
  "dedupe_bookmarks_globally L bs =
     (case dedupe_buckets L bs {} \<lparr>urls_kept = 0, urls_removed = 0, folders_total = 0\<rparr> of
        (bs', seen', st') \<Rightarrow> (bs', st'))"

text \<open>
  A tree with two folders of the normalized name \<open>work\<close> around a folder \<open>Personal\<close>.
\<close>

definition bmA :: bookmark where
  "bmA = \<lparr>href = ''http://ex.com/a'', title = ''a'', attrs = []\<rparr>"
definition bmP :: bookmark where
  "bmP = \<lparr>href = ''http://ex.com/x'', title = ''in Personal'', attrs = []\<rparr>"
definition bmW :: bookmark where
  "bmW = \<lparr>href = ''http://ex.com/x/'', title = ''in Work'', attrs = []\<rparr>"
definition tree_wpw :: folder where
  "tree_wpw = Folder ''ROOT'' []
     [FolderNode (Folder ''Work'' [] [BookmarkNode bmA]),
      FolderNode (Folder ''Personal'' [] [BookmarkNode bmP]),
      FolderNode (Folder ''WORK '' [(''ADD_DATE'', ''7'')] [BookmarkNode bmW])]"

section \<open>Pruned trees\<close>

text \<open>
  A list of children is well pruned when it holds bookmarks and folders only, and every
  folder in it, at any depth, has a child and holds a bookmark.
\<close>

fun well_pruned :: "node list \<Rightarrow> bool" where
  "well_pruned [] = True"
| "well_pruned (BookmarkNode b # rest) = well_pruned rest"
| "well_pruned (FolderNode (Folder n a cs) # rest) =
     (cs \<noteq> [] \<and> nodes_bookmarks cs \<noteq> [] \<and> well_pruned cs \<and> well_pruned rest)"
| "well_pruned (UnknownNode # rest) = False"

text \<open>
  A tree where the folder \<open>B\<close> holds only a duplicate of \<open>bm1\<close> and the folder \<open>E\<close>
  is empty.
\<close>

definition folder_b_dup :: folder where
  "folder_b_dup = Folder ''B'' [] [BookmarkNode bm1_dup]"
definition tree_dup :: folder where
  "tree_dup = Folder ''ROOT'' []
     [FolderNode (Folder ''A'' [] [BookmarkNode bm1, FolderNode folder_b_dup]),
      FolderNode (Folder ''E'' [] [])]"
definition tree_dup_pruned :: folder where
  "tree_dup_pruned = Folder ''ROOT'' [] [FolderNode (Folder ''A'' [] [BookmarkNode bm1])]"
definition stats_b :: stats where
  "stats_b = \<lparr>urls_kept = 1, urls_removed = 0, folders_pruned = 0\<rparr>"

section \<open>Bucket order\<close>

text \<open>
  The bookmarks of the buckets in the order in which \<open>dedupe_bookmarks_globally\<close>
  visits them, and the non-empty keys of a list of bookmarks.
\<close>

definition flat_order :: "buckets \<Rightarrow> bookmark list" where
  "flat_order bs = concat (map (\<lambda>kb. bookmarks (snd kb)) bs)"

definition key_set :: "urllib \<Rightarrow> bookmark list \<Rightarrow> string set" where
  "key_set L bs = {k \<in> (\<lambda>b. normalize_url L (href b)) ` set bs. k \<noteq> []}"

text \<open>
  The calls of \<open>add_to_bucket\<close> that \<open>walk\<close> makes, in order: one for the root and one
  for every folder below it, a folder before the folders inside it.
\<close>

type_synonym walk_item = "string option \<times> attrs \<times> node list"

fun walk_items :: "folder \<Rightarrow> bool \<Rightarrow> walk_item list"
  and children_items :: "node list \<Rightarrow> walk_item list"
where
  "walk_items (Folder n a cs) is_root =
     (if \<not> is_root then (Some n, a, cs) else (None, [], cs)) # children_items cs"
| "children_items [] = []"
| "children_items (FolderNode f # rest) = walk_items f False @ children_items rest"
| "children_items (BookmarkNode b # rest) = children_items rest"
| "children_items (UnknownNode # rest) = children_items rest"

definition add_item :: "buckets \<Rightarrow> walk_item \<Rightarrow> buckets" where
  "add_item bs w = (case w of (nm, a, items) \<Rightarrow> add_to_bucket bs nm a items)"

text \<open>A tree whose only bookmark has no address, and the results of the flatten engine.\<close>

definition bm_empty :: bookmark where
  "bm_empty = \<lparr>href = '''', title = ''no address'', attrs = []\<rparr>"
definition tree_empty_href :: folder where
  "tree_empty_href = Folder ''ROOT'' [] [FolderNode (Folder ''A'' [] [BookmarkNode bm_empty])]"
definition flat_stats0 :: flat_stats where
  "flat_stats0 = \<lparr>urls_kept = 0, urls_removed = 0, folders_total = 0\<rparr>"
definition flat_ab :: buckets where
  "flat_ab =
     [(''__unsorted__'', \<lparr>display_name = ''Unsorted'', bookmarks = [], h3_attrs = []\<rparr>),
      (''a'', \<lparr>display_name = ''A'', bookmarks = [bm1], h3_attrs = []\<rparr>),
      (''b'', \<lparr>display_name = ''B'', bookmarks = [bm2], h3_attrs = []\<rparr>)]"
definition flat_wpw :: buckets where
  "flat_wpw =
     [(''__unsorted__'', \<lparr>display_name = ''Unsorted'', bookmarks = [], h3_attrs = []\<rparr>),
      (''work'', \<lparr>display_name = ''Work'', bookmarks = [bmA, bmW],
                  h3_attrs = [(''ADD_DATE'', ''7'')]\<rparr>),
      (''personal'', \<lparr>display_name = ''Personal'', bookmarks = [], h3_attrs = []\<rparr>)]"

section \<open>Bucket order from the tree\<close>

text \<open>
  The key, the attributes and the direct bookmarks of an item of the walk. \<open>first_seen\<close>
  keeps the first occurrence of every key of a list, in order; \<open>with_key\<close> are the items
  of one key, in walk order; \<open>first_attrs\<close> is the first attribute mapping of a list
  that is not empty, or the empty one. \<open>bucket_order\<close> lists the bookmarks of a tree
  bucket by bucket: the keys in the order in which the walk first meets them, after the
  reserved key, and under each key the direct bookmarks of its folders in walk order.
\<close>

definition item_key :: "walk_item \<Rightarrow> string" where
  "item_key w = bucket_key (fst w)"

definition item_attrs :: "walk_item \<Rightarrow> attrs" where
  "item_attrs w = fst (snd w)"

definition item_bookmarks :: "walk_item \<Rightarrow> bookmark list" where
  "item_bookmarks w = direct_bookmarks (snd (snd w))"

primrec first_seen :: "string list \<Rightarrow> string list" where
  "first_seen [] = []"
| "first_seen (k # ks) = k # filter (\<lambda>x. x \<noteq> k) (first_seen ks)"

definition with_key :: "string \<Rightarrow> walk_item list \<Rightarrow> walk_item list" where
  "with_key k ws = filter (\<lambda>w. item_key w = k) ws"

definition first_attrs :: "attrs list \<Rightarrow> attrs" where
  "first_attrs as = (case List.find (\<lambda>a. a \<noteq> []) as of None \<Rightarrow> [] | Some a \<Rightarrow> a)"

definition bucket_order :: "folder \<Rightarrow> bookmark list" where
  "bucket_order root =
     (let ws = walk_items root True
      in concat (map (\<lambda>k. concat (map item_bookmarks (with_key k ws)))
                   (first_seen (unsorted_key # map item_key ws))))"

text \<open>What the calls for the items \<open>ws\<close>, all of one key, make of the bucket \<open>ob\<close> of that key.\<close>

definition merged :: "bucket option \<Rightarrow> walk_item list \<Rightarrow> bucket option" where
  "merged ob ws =
     (if ws = [] then ob
      else Some \<lparr>display_name = (case ob of None \<Rightarrow> name_or (fst (hd ws)) ''Unsorted''
                                  | Some b \<Rightarrow> display_name b),
                 bookmarks = (case ob of None \<Rightarrow> [] | Some b \<Rightarrow> bookmarks b)
                             @ concat (map item_bookmarks ws),
                 h3_attrs = first_attrs ((case ob of None \<Rightarrow> [] | Some b \<Rightarrow> h3_attrs b)
                                         # map item_attrs ws)\<rparr>)"

definition init_buckets :: buckets where
  "init_buckets = [(unsorted_key, \<lparr>display_name = ''Unsorted'', bookmarks = [], h3_attrs = []\<rparr>)]"

text \<open>
  Trees for the flatten engine: \<open>Personal\<close> before \<open>Work\<close>; two folders of the
  normalized name \<open>work\<close> of which only the second has attributes; a folder whose
  normalized name is empty.
\<close>

definition tree_pw :: folder where
  "tree_pw = Folder ''ROOT'' []
     [FolderNode (Folder ''Personal'' [] [BookmarkNode bmP]),
      FolderNode (Folder ''Work'' [] [BookmarkNode bmW, BookmarkNode bmA])]"
definition flat_pw_in :: buckets where
  "flat_pw_in =
     [(''__unsorted__'', \<lparr>display_name = ''Unsorted'', bookmarks = [], h3_attrs = []\<rparr>),
      (''personal'', \<lparr>display_name = ''Personal'', bookmarks = [bmP], h3_attrs = []\<rparr>),
      (''work'', \<lparr>display_name = ''Work'', bookmarks = [bmW, bmA], h3_attrs = []\<rparr>)]"
definition flat_pw :: buckets where
  "flat_pw =
     [(''__unsorted__'', \<lparr>display_name = ''Unsorted'', bookmarks = [], h3_attrs = []\<rparr>),
      (''personal'', \<lparr>display_name = ''Personal'', bookmarks = [bmP], h3_attrs = []\<rparr>),
      (''work'', \<lparr>display_name = ''Work'', bookmarks = [bmA], h3_attrs = []\<rparr>)]"
definition tree_attrs :: folder where
  "tree_attrs = Folder ''ROOT'' []
     [FolderNode (Folder ''Work'' [] [BookmarkNode bmA]),
      FolderNode (Folder ''WORK'' [(''ADD_DATE'', ''7'')] [BookmarkNode bmW])]"
definition tree_dash :: folder where
  "tree_dash = Folder ''ROOT'' [] [FolderNode (Folder ''-'' [] [BookmarkNode bmA])]"
definition flat_wpw_in :: buckets where
  "flat_wpw_in =
     [(''__unsorted__'', \<lparr>display_name = ''Unsorted'', bookmarks = [], h3_attrs = []\<rparr>),
      (''work'', \<lparr>display_name = ''Work'', bookmarks = [bmA, bmW],
                  h3_attrs = [(''ADD_DATE'', ''7'')]\<rparr>),
      (''personal'', \<lparr>display_name = ''Personal'', bookmarks = [bmP], h3_attrs = []\<rparr>)]"

definition work_bucket :: bucket where
  "work_bucket = \<lparr>display_name = ''Work'', bookmarks = [bmA, bmW],
                   h3_attrs = [(''ADD_DATE'', ''7'')]\<rparr>"

section \<open>Properties of the pass over a list\<close>

lemma dedupe_list_append:
  "dedupe_list L seen (xs @ ys) =
     (case dedupe_list L seen xs of (k1, s1) \<Rightarrow>
        (case dedupe_list L s1 ys of (k2, s2) \<Rightarrow> (k1 @ k2, s2)))"
  by (induction xs arbitrary: seen) (auto simp: Let_def split: prod.splits)

lemma prune_bookmarks:
  "prune_and_dedupe L f seen st = (f', seen', st') \<Longrightarrow>
     dedupe_list L seen (folder_bookmarks f) = (folder_bookmarks f', seen')"
  "prune_children L cs seen st = (cs', seen', st') \<Longrightarrow>
     dedupe_list L seen (nodes_bookmarks cs) = (nodes_bookmarks cs', seen')"
proof (induction L f seen st and L cs seen st arbitrary: f' seen' st' and cs' seen' st'
       rule: prune_and_dedupe_prune_children.induct)
  case (1 L n a cs seen st)
  then show ?case by (auto split: prod.splits)
next
  case (2 L seen st)
  then show ?case by simp
next
  case (3 L b rest seen st)
  then show ?case by (auto simp: Let_def split: prod.splits if_splits)
next
  case (4 L f rest seen st)
  obtain p s1 t1 where p: "prune_and_dedupe L f seen st = (p, s1, t1)"
    by (cases "prune_and_dedupe L f seen st") auto
  have d1: "dedupe_list L seen (folder_bookmarks f) = (folder_bookmarks p, s1)"
    using "4.IH"(1) p by simp
  show ?case
  proof (cases "children p \<noteq> []")
    case True
    obtain r s2 t2 where r: "prune_children L rest s1 t1 = (r, s2, t2)"
      by (cases "prune_children L rest s1 t1") auto
    have "dedupe_list L s1 (nodes_bookmarks rest) = (nodes_bookmarks r, s2)"
      using "4.IH"(2) [OF p [symmetric] refl True r] .
    with d1 p r True "4.prems" show ?thesis
      by (auto simp: dedupe_list_append)
  next
    case False
    then have e: "folder_bookmarks p = []" by (cases p) simp
    have "dedupe_list L s1 (nodes_bookmarks rest) = (nodes_bookmarks cs', seen')"
      using "4.IH"(3) [OF p [symmetric] refl False] "4.prems" p False by simp
    with d1 e show ?thesis by (simp add: dedupe_list_append)
  qed
next
  case (5 L rest seen st)
  then show ?case by simp
qed


lemma prune_stats:
  "prune_and_dedupe L f seen st = (f', seen', st') \<Longrightarrow>
     urls_kept st' = urls_kept st + int (length (folder_bookmarks f')) \<and>
     urls_removed st' + int (length (folder_bookmarks f')) = urls_removed st + int (length (folder_bookmarks f)) \<and>
     folders_pruned st' + int (subfolder_count f') = folders_pruned st + int (subfolder_count f)"
  "prune_children L cs seen st = (cs', seen', st') \<Longrightarrow>
     urls_kept st' = urls_kept st + int (length (nodes_bookmarks cs')) \<and>
     urls_removed st' + int (length (nodes_bookmarks cs')) = urls_removed st + int (length (nodes_bookmarks cs)) \<and>
     folders_pruned st' + int (nodes_folder_count cs') = folders_pruned st + int (nodes_folder_count cs)"
proof (induction L f seen st and L cs seen st arbitrary: f' seen' st' and cs' seen' st'
       rule: prune_and_dedupe_prune_children.induct)
  case (1 L n a cs seen st)
  then show ?case by (auto split: prod.splits)
next
  case (2 L seen st)
  then show ?case by auto
next
  case (3 L b rest seen st)
  let ?k = "normalize_url L (href b)"
  show ?case
  proof (cases "?k \<noteq> [] \<and> ?k \<notin> seen")
    case True
    obtain r s2 t2 where
      r: "prune_children L rest (insert ?k seen) (st\<lparr>urls_kept := urls_kept st + 1\<rparr>) = (r, s2, t2)"
      by (cases "prune_children L rest (insert ?k seen) (st\<lparr>urls_kept := urls_kept st + 1\<rparr>)") auto
    note h = "3.IH"(1) [OF refl True r]
    from True r "3.prems" have "cs' = BookmarkNode b # r" "st' = t2"
      by (auto simp: Let_def)
    with h show ?thesis by simp
  next
    case False
    then have "prune_children L rest seen (st\<lparr>urls_removed := urls_removed st + 1\<rparr>) = (cs', seen', st')"
      using "3.prems" by (auto simp: Let_def)
    from "3.IH"(2) [OF refl False this] show ?thesis by simp
  qed
next
  case (4 L f rest seen st)
  obtain p s1 t1 where p: "prune_and_dedupe L f seen st = (p, s1, t1)"
    by (cases "prune_and_dedupe L f seen st") auto
  note h1 = "4.IH"(1) [OF p]
  show ?case
  proof (cases "children p \<noteq> []")
    case True
    obtain r s2 t2 where r: "prune_children L rest s1 t1 = (r, s2, t2)"
      by (cases "prune_children L rest s1 t1") auto
    note h2 = "4.IH"(2) [OF p [symmetric] refl True r]
    from h1 h2 p r True "4.prems" show ?thesis by auto
  next
    case False
    then have e: "folder_bookmarks p = []" "subfolder_count p = 0" by (cases p; simp)+
    note h3 = "4.IH"(3) [OF p [symmetric] refl False]
    have "prune_children L rest s1 (t1\<lparr>folders_pruned := folders_pruned t1 + 1\<rparr>) = (cs', seen', st')"
      using "4.prems" p False by simp
    from h3 [OF this] h1 e show ?thesis by auto
  qed
next
  case (5 L rest seen st)
  then show ?case by simp
qed

lemma survives_0: "survives (k # ks) seen 0 = (k \<noteq> [] \<and> k \<notin> seen)"
  by (simp add: survives_def)

lemma survives_Suc_kept:
  "i < length ks \<Longrightarrow> survives (k # ks) seen (Suc i) = survives ks (insert k seen) i"
  by (auto simp: survives_def)

lemma survives_Suc_dropped:
  "\<not> (k \<noteq> [] \<and> k \<notin> seen) \<Longrightarrow> survives (k # ks) seen (Suc i) = survives ks seen i"
  by (auto simp: survives_def)

lemma upt_length_Cons: "[0..<length (b # bs)] = 0 # map Suc [0..<length bs]"
  by (simp add: upt_conv_Cons map_Suc_upt del: upt_Suc)

lemma survivors_Cons_kept:
  assumes "normalize_url L (href b) \<noteq> []" "normalize_url L (href b) \<notin> seen"
  shows "survivors L seen (b # bs) = b # survivors L (insert (normalize_url L (href b)) seen) bs"
proof -
  let ?k = "normalize_url L (href b)"
  let ?ks = "map (\<lambda>b. normalize_url L (href b)) bs"
  have "filter (survives (?k # ?ks) seen \<circ> Suc) [0..<length bs]
        = filter (survives ?ks (insert ?k seen)) [0..<length bs]"
    by (rule filter_cong) (auto simp: survives_Suc_kept)
  with assms show ?thesis
    unfolding survivors_def upt_length_Cons
    by (simp add: filter_map survives_0 comp_def del: upt_Suc)
qed

lemma survivors_Cons_dropped:
  assumes "\<not> (normalize_url L (href b) \<noteq> [] \<and> normalize_url L (href b) \<notin> seen)"
  shows "survivors L seen (b # bs) = survivors L seen bs"
proof -
  let ?k = "normalize_url L (href b)"
  let ?ks = "map (\<lambda>b. normalize_url L (href b)) bs"
  have "filter (survives (?k # ?ks) seen \<circ> Suc) [0..<length bs]
        = filter (survives ?ks seen) [0..<length bs]"
    by (rule filter_cong) (use assms in \<open>auto simp: survives_Suc_dropped\<close>)
  moreover have "\<not> survives (?k # ?ks) seen 0"
    using assms by (simp add: survives_0)
  ultimately show ?thesis
    unfolding survivors_def upt_length_Cons
    by (simp add: filter_map comp_def del: upt_Suc)
qed

lemma dedupe_list_survivors: "fst (dedupe_list L seen bs) = survivors L seen bs"
proof (induction bs arbitrary: seen)
  case Nil
  show ?case by (simp add: survivors_def)
next
  case (Cons b bs)
  show ?case
  proof (cases "normalize_url L (href b) \<noteq> [] \<and> normalize_url L (href b) \<notin> seen")
    case True
    then show ?thesis
      by (simp add: survivors_Cons_kept Cons.IH [symmetric] case_prod_beta Let_def)
  next
    case False
    have "dedupe_list L seen (b # bs) = dedupe_list L seen bs"
      using False by (auto simp: Let_def)
    then show ?thesis
      using survivors_Cons_dropped [OF False, of bs] Cons.IH by simp
  qed
qed

lemma dedupe_list_seen:
  "snd (dedupe_list L seen bs) = seen \<union> {k \<in> (\<lambda>b. normalize_url L (href b)) ` set bs. k \<noteq> []}"
proof (induction bs arbitrary: seen)
  case Nil
  show ?case by simp
next
  case (Cons b bs)
  show ?case
  proof (cases "normalize_url L (href b) \<noteq> [] \<and> normalize_url L (href b) \<notin> seen")
    case True
    then have "snd (dedupe_list L seen (b # bs)) = snd (dedupe_list L (insert (normalize_url L (href b)) seen) bs)"
      by (simp add: Let_def case_prod_beta)
    with True show ?thesis unfolding Cons.IH by auto
  next
    case False
    then have "snd (dedupe_list L seen (b # bs)) = snd (dedupe_list L seen bs)"
      by (auto simp: Let_def)
    with False show ?thesis unfolding Cons.IH by auto
  qed
qed

lemma dedupe_list_filter_seen:
  "k \<in> seen \<Longrightarrow> filter (\<lambda>x. normalize_url L (href x) = k) (fst (dedupe_list L seen bs)) = []"
proof (induction bs arbitrary: seen)
  case Nil
  show ?case by simp
next
  case (Cons b bs)
  show ?case
  proof (cases "normalize_url L (href b) \<noteq> [] \<and> normalize_url L (href b) \<notin> seen")
    case True
    then have "fst (dedupe_list L seen (b # bs))
               = b # fst (dedupe_list L (insert (normalize_url L (href b)) seen) bs)"
      by (simp add: Let_def case_prod_beta)
    moreover have "normalize_url L (href b) \<noteq> k" using True Cons.prems by auto
    ultimately show ?thesis using Cons.IH [of "insert (normalize_url L (href b)) seen"] Cons.prems
      by simp
  next
    case False
    then have "dedupe_list L seen (b # bs) = dedupe_list L seen bs" by (auto simp: Let_def)
    then show ?thesis using Cons.IH [OF Cons.prems] by simp
  qed
qed

lemma dedupe_list_filter_first:
  "k \<noteq> [] \<Longrightarrow> k \<notin> seen \<Longrightarrow> List.find (\<lambda>x. normalize_url L (href x) = k) bs = Some b \<Longrightarrow>
     filter (\<lambda>x. normalize_url L (href x) = k) (fst (dedupe_list L seen bs)) = [b]"
proof (induction bs arbitrary: seen)
  case Nil
  then show ?case by simp
next
  case (Cons a bs)
  let ?ka = "normalize_url L (href a)"
  show ?case
  proof (cases "?ka = k")
    case True
    with Cons.prems have ab: "a = b" by simp
    from True Cons.prems have "fst (dedupe_list L seen (a # bs))
               = a # fst (dedupe_list L (insert k seen) bs)"
      by (simp add: Let_def case_prod_beta)
    with True ab show ?thesis
      using dedupe_list_filter_seen [of k "insert k seen" L bs] by simp
  next
    case False
    with Cons.prems have f: "List.find (\<lambda>x. normalize_url L (href x) = k) bs = Some b" by simp
    show ?thesis
    proof (cases "?ka \<noteq> [] \<and> ?ka \<notin> seen")
      case True
      then have "fst (dedupe_list L seen (a # bs)) = a # fst (dedupe_list L (insert ?ka seen) bs)"
        by (simp add: Let_def case_prod_beta)
      moreover have "k \<notin> insert ?ka seen" using False Cons.prems by auto
      ultimately show ?thesis using Cons.IH [OF Cons.prems(1) _ f, of "insert ?ka seen"] False
        by simp
    next
      case nk: False
      then have "dedupe_list L seen (a # bs) = dedupe_list L seen bs" by (auto simp: Let_def)
      then show ?thesis using Cons.IH [OF Cons.prems(1,2) f] by simp
    qed
  qed
qed

lemma tree_ab_run:
  "prune_and_dedupe py_urllib tree_ab {} stats0
   = (tree_ab_pruned, {''http://ex.com/y'', ''http://ex.com/x''},
      \<lparr>urls_kept = 2, urls_removed = 1, folders_pruned = 0\<rparr>)"
  by code_simp

section \<open>The dedupe-and-prune engine: first occurrence wins\<close>

text \<open>
  C1. The prune engine visits the bookmarks in document order, depth first. Its output
  holds, in that order, exactly the bookmarks that survive: those whose key is not empty,
  not in \<open>seen\<close>, and the key of no earlier bookmark. Each is the input's own record,
  with its title and attributes. Of the bookmarks with one such key, the first in document
  order is the only one in the output, whatever folders they are in, and every bookmark
  that does not survive adds one to \<open>urls_removed\<close>.
\<close>

theorem prune_first_occurrence_wins:
  assumes "prune_and_dedupe L f seen st = (f', seen', st')"
  shows "folder_bookmarks f' = survivors L seen (folder_bookmarks f)
       \<and> urls_kept st' = urls_kept st + int (length (survivors L seen (folder_bookmarks f)))
       \<and> urls_removed st' = urls_removed st + int (length (folder_bookmarks f))
                              - int (length (survivors L seen (folder_bookmarks f)))
       \<and> (\<forall>k b. k \<noteq> [] \<and> k \<notin> seen
                 \<and> List.find (\<lambda>x. normalize_url L (href x) = k) (folder_bookmarks f) = Some b
              \<longrightarrow> filter (\<lambda>x. normalize_url L (href x) = k) (folder_bookmarks f') = [b])"
proof -
  from prune_bookmarks(1) [OF assms]
  have d: "dedupe_list L seen (folder_bookmarks f) = (folder_bookmarks f', seen')" .
  then have s: "folder_bookmarks f' = survivors L seen (folder_bookmarks f)"
    using dedupe_list_survivors [of L seen "folder_bookmarks f"] by simp
  from prune_stats(1) [OF assms] s
  have k: "urls_kept st' = urls_kept st + int (length (survivors L seen (folder_bookmarks f)))"
    and r: "urls_removed st' = urls_removed st + int (length (folder_bookmarks f))
                              - int (length (survivors L seen (folder_bookmarks f)))"
    by simp_all
  have "filter (\<lambda>x. normalize_url L (href x) = k) (folder_bookmarks f') = [b]"
    if "k \<noteq> []" "k \<notin> seen"
       "List.find (\<lambda>x. normalize_url L (href x) = k) (folder_bookmarks f) = Some b" for k b
    using dedupe_list_filter_first [OF that] d by simp
  with s k r show ?thesis by blast
qed

theorem prune_first_occurrence_wins_witness:
  "prune_and_dedupe py_urllib tree_ab {} stats0
     = (tree_ab_pruned, {''http://ex.com/y'', ''http://ex.com/x''},
        \<lparr>urls_kept = 2, urls_removed = 1, folders_pruned = 0\<rparr>)
   \<and> folder_bookmarks tree_ab = [bm1, bm1_dup, bm2]
   \<and> folder_bookmarks tree_ab_pruned = [bm1, bm2]
   \<and> survivors py_urllib {} (folder_bookmarks tree_ab) = [bm1, bm2]
   \<and> filter (\<lambda>x. normalize_url py_urllib (href x) = ''http://ex.com/x'')
         (folder_bookmarks tree_ab_pruned) = [bm1]"
proof -
  have f: "List.find (\<lambda>x. normalize_url py_urllib (href x) = ''http://ex.com/x'')
             (folder_bookmarks tree_ab) = Some bm1"
    by code_simp
  have b: "folder_bookmarks tree_ab = [bm1, bm1_dup, bm2]"
    by (simp add: tree_ab_def)
  have p: "folder_bookmarks tree_ab_pruned = [bm1, bm2]"
    by (simp add: tree_ab_pruned_def)
  note w = prune_first_occurrence_wins [OF tree_ab_run]
  from w p have s: "survivors py_urllib {} (folder_bookmarks tree_ab) = [bm1, bm2]"
    by simp
  from w have a: "\<forall>k b. k \<noteq> [] \<and> k \<notin> {}
       \<and> List.find (\<lambda>x. normalize_url py_urllib (href x) = k) (folder_bookmarks tree_ab) = Some b
      \<longrightarrow> filter (\<lambda>x. normalize_url py_urllib (href x) = k) (folder_bookmarks tree_ab_pruned) = [b]"
    by blast
  have k: "filter (\<lambda>x. normalize_url py_urllib (href x) = ''http://ex.com/x'')
           (folder_bookmarks tree_ab_pruned) = [bm1]"
    using spec [OF spec [OF a, of "''http://ex.com/x''"], of bm1] f by simp
  from tree_ab_run b p s k show ?thesis by simp
qed

section \<open>The dedupe-and-prune engine: structural pruning\<close>

lemma well_pruned_bookmarks: "well_pruned cs \<Longrightarrow> cs \<noteq> [] \<Longrightarrow> nodes_bookmarks cs \<noteq> []"
proof (cases cs)
  case Nil
  then show "cs \<noteq> [] \<Longrightarrow> ?thesis" by simp
next
  case (Cons c rest)
  assume w: "well_pruned cs"
  show ?thesis
  proof (cases c)
    case (BookmarkNode b)
    with Cons show ?thesis by simp
  next
    case (FolderNode f)
    with Cons w show ?thesis by (cases f) simp
  next
    case UnknownNode
    with Cons w show ?thesis by simp
  qed
qed

lemma prune_well_pruned:
  "prune_and_dedupe L f seen st = (f', seen', st') \<Longrightarrow>
     name f' = name f \<and> fattrs f' = fattrs f \<and> well_pruned (children f')"
  "prune_children L cs seen st = (cs', seen', st') \<Longrightarrow> well_pruned cs'"
proof (induction L f seen st and L cs seen st arbitrary: f' seen' st' and cs' seen' st'
       rule: prune_and_dedupe_prune_children.induct)
  case (1 L n a cs seen st)
  then show ?case by (auto split: prod.splits)
next
  case (2 L seen st)
  then show ?case by auto
next
  case (3 L b rest seen st)
  let ?k = "normalize_url L (href b)"
  show ?case
  proof (cases "?k \<noteq> [] \<and> ?k \<notin> seen")
    case True
    obtain r s2 t2 where
      r: "prune_children L rest (insert ?k seen) (st\<lparr>urls_kept := urls_kept st + 1\<rparr>) = (r, s2, t2)"
      by (cases "prune_children L rest (insert ?k seen) (st\<lparr>urls_kept := urls_kept st + 1\<rparr>)") auto
    note h = "3.IH"(1) [OF refl True r]
    from True r "3.prems" have "cs' = BookmarkNode b # r" by (auto simp: Let_def)
    with h show ?thesis by simp
  next
    case False
    then have "prune_children L rest seen (st\<lparr>urls_removed := urls_removed st + 1\<rparr>) = (cs', seen', st')"
      using "3.prems" by (auto simp: Let_def)
    from "3.IH"(2) [OF refl False this] show ?thesis .
  qed
next
  case (4 L f rest seen st)
  obtain p s1 t1 where p: "prune_and_dedupe L f seen st = (p, s1, t1)"
    by (cases "prune_and_dedupe L f seen st") auto
  note h1 = "4.IH"(1) [OF p]
  show ?case
  proof (cases "children p \<noteq> []")
    case True
    obtain r s2 t2 where r: "prune_children L rest s1 t1 = (r, s2, t2)"
      by (cases "prune_children L rest s1 t1") auto
    note h2 = "4.IH"(2) [OF p [symmetric] refl True r]
    from p r True "4.prems" have c: "cs' = FolderNode p # r" by auto
    obtain n a cs where pf: "p = Folder n a cs" by (cases p) auto
    from h1 pf True have "cs \<noteq> []" "well_pruned cs" by auto
    with well_pruned_bookmarks [of cs] have "nodes_bookmarks cs \<noteq> []" by simp
    with c pf h2 \<open>cs \<noteq> []\<close> \<open>well_pruned cs\<close> show ?thesis by simp
  next
    case False
    have "prune_children L rest s1 (t1\<lparr>folders_pruned := folders_pruned t1 + 1\<rparr>) = (cs', seen', st')"
      using "4.prems" p False by simp
    from "4.IH"(3) [OF p [symmetric] refl False this] show ?thesis .
  qed
next
  case (5 L rest seen st)
  then show ?case by simp
qed

lemma pruned_nonempty_iff:
  assumes "prune_and_dedupe L g seen st = (p, s1, t1)"
  shows "children p \<noteq> [] \<longleftrightarrow> survivors L seen (folder_bookmarks g) \<noteq> []"
proof -
  obtain n a cs where pf: "p = Folder n a cs" by (cases p) auto
  from prune_well_pruned(1) [OF assms] pf have w: "well_pruned cs" by simp
  from prune_bookmarks(1) [OF assms] dedupe_list_survivors [of L seen "folder_bookmarks g"]
  have s: "survivors L seen (folder_bookmarks g) = nodes_bookmarks cs" using pf by simp
  show ?thesis
  proof
    assume "children p \<noteq> []"
    with pf w well_pruned_bookmarks [of cs] s show "survivors L seen (folder_bookmarks g) \<noteq> []"
      by simp
  next
    assume "survivors L seen (folder_bookmarks g) \<noteq> []"
    with s have "nodes_bookmarks cs \<noteq> []" by simp
    then have "cs \<noteq> []" by auto
    with pf show "children p \<noteq> []" by simp
  qed
qed

lemma tree_dup_run:
  "prune_and_dedupe py_urllib tree_dup {} stats0
   = (tree_dup_pruned, {''http://ex.com/x''},
      \<lparr>urls_kept = 1, urls_removed = 1, folders_pruned = 2\<rparr>)"
  by code_simp

lemma folder_b_dup_run:
  "prune_and_dedupe py_urllib folder_b_dup {''http://ex.com/x''} stats_b
   = (Folder ''B'' [] [], {''http://ex.com/x''},
      \<lparr>urls_kept = 1, urls_removed = 1, folders_pruned = 0\<rparr>)"
  by code_simp

lemma empty_root_run:
  "prune_and_dedupe py_urllib (Folder ''ROOT'' [] [FolderNode folder_b_dup]) {''http://ex.com/x''} stats_b
   = (Folder ''ROOT'' [] [], {''http://ex.com/x''},
      \<lparr>urls_kept = 1, urls_removed = 1, folders_pruned = 1\<rparr>)"
  by code_simp

text \<open>
  C3. The prune engine returns the root itself, with its name and attributes, also when
  no child is left. Below the root, a folder \<open>g\<close> that the traversal reaches with the set
  \<open>sn\<close> is in the output exactly when its pruned form has a child, which is exactly when
  a bookmark below it survives; otherwise it is dropped and adds one to
  \<open>folders_pruned\<close>. So every folder of the output has a child and holds a bookmark,
  \<open>folders_pruned\<close> grows by the number of folders of the input that are not in the
  output, and the two URL counters together grow by the number of bookmarks, whatever
  was pruned.
\<close>

theorem prune_structural_pruning:
  assumes "prune_and_dedupe L f seen st = (f', seen', st')"
  shows "name f' = name f \<and> fattrs f' = fattrs f
       \<and> well_pruned (children f')
       \<and> folders_pruned st' = folders_pruned st + int (subfolder_count f) - int (subfolder_count f')
       \<and> urls_kept st' + urls_removed st'
           = urls_kept st + urls_removed st + int (length (folder_bookmarks f))
       \<and> (\<forall>g rest sn t p s1 t1.
             prune_and_dedupe L g sn t = (p, s1, t1) \<longrightarrow>
               (children p \<noteq> [] \<longleftrightarrow> survivors L sn (folder_bookmarks g) \<noteq> [])
             \<and> prune_children L (FolderNode g # rest) sn t
                 = (if survivors L sn (folder_bookmarks g) \<noteq> []
                    then (case prune_children L rest s1 t1 of
                            (r, s2, t2) \<Rightarrow> (FolderNode p # r, s2, t2))
                    else prune_children L rest s1 (t1\<lparr>folders_pruned := folders_pruned t1 + 1\<rparr>)))"
proof -
  note w = prune_well_pruned(1) [OF assms]
  note c = prune_stats(1) [OF assms]
  have loc: "(children p \<noteq> [] \<longleftrightarrow> survivors L sn (folder_bookmarks g) \<noteq> [])
             \<and> prune_children L (FolderNode g # rest) sn t
                 = (if survivors L sn (folder_bookmarks g) \<noteq> []
                    then (case prune_children L rest s1 t1 of
                            (r, s2, t2) \<Rightarrow> (FolderNode p # r, s2, t2))
                    else prune_children L rest s1 (t1\<lparr>folders_pruned := folders_pruned t1 + 1\<rparr>))"
    if "prune_and_dedupe L g sn t = (p, s1, t1)" for g rest sn t p s1 t1
    using pruned_nonempty_iff [OF that] that by simp
  from c have "folders_pruned st' = folders_pruned st + int (subfolder_count f) - int (subfolder_count f')"
    and "urls_kept st' + urls_removed st'
           = urls_kept st + urls_removed st + int (length (folder_bookmarks f))"
    by simp_all
  with w loc show ?thesis by blast
qed

theorem prune_structural_pruning_witness:
  "prune_and_dedupe py_urllib tree_dup {} stats0
     = (tree_dup_pruned, {''http://ex.com/x''},
        \<lparr>urls_kept = 1, urls_removed = 1, folders_pruned = 2\<rparr>)
   \<and> name tree_dup_pruned = ''ROOT''
   \<and> well_pruned (children tree_dup_pruned)
   \<and> subfolder_count tree_dup = 3 \<and> subfolder_count tree_dup_pruned = 1
   \<and> length (folder_bookmarks tree_dup) = 2
   \<and> prune_and_dedupe py_urllib folder_b_dup {''http://ex.com/x''} stats_b
     = (Folder ''B'' [] [], {''http://ex.com/x''},
        \<lparr>urls_kept = 1, urls_removed = 1, folders_pruned = 0\<rparr>)
   \<and> survivors py_urllib {''http://ex.com/x''} (folder_bookmarks folder_b_dup) = []
   \<and> prune_children py_urllib [FolderNode folder_b_dup] {''http://ex.com/x''} stats_b
     = ([], {''http://ex.com/x''}, \<lparr>urls_kept = 1, urls_removed = 1, folders_pruned = 1\<rparr>)"
proof -
  note w = prune_structural_pruning [OF tree_dup_run]
  from w have n: "name tree_dup_pruned = ''ROOT''" and p: "well_pruned (children tree_dup_pruned)"
    by (simp_all add: tree_dup_def)
  from w have a: "\<forall>g rest sn t p s1 t1.
             prune_and_dedupe py_urllib g sn t = (p, s1, t1) \<longrightarrow>
               (children p \<noteq> [] \<longleftrightarrow> survivors py_urllib sn (folder_bookmarks g) \<noteq> [])
             \<and> prune_children py_urllib (FolderNode g # rest) sn t
                 = (if survivors py_urllib sn (folder_bookmarks g) \<noteq> []
                    then (case prune_children py_urllib rest s1 t1 of
                            (r, s2, t2) \<Rightarrow> (FolderNode p # r, s2, t2))
                    else prune_children py_urllib rest s1 (t1\<lparr>folders_pruned := folders_pruned t1 + 1\<rparr>))"
    by blast
  from a [rule_format, OF folder_b_dup_run, of "[]"]
  have s: "survivors py_urllib {''http://ex.com/x''} (folder_bookmarks folder_b_dup) = []"
    and c: "prune_children py_urllib [FolderNode folder_b_dup] {''http://ex.com/x''} stats_b
     = ([], {''http://ex.com/x''}, \<lparr>urls_kept = 1, urls_removed = 1, folders_pruned = 1\<rparr>)"
    by simp_all
  have k: "subfolder_count tree_dup = 3" "subfolder_count tree_dup_pruned = 1"
    "length (folder_bookmarks tree_dup) = 2"
    by (simp_all add: tree_dup_def tree_dup_pruned_def folder_b_dup_def)
  from tree_dup_run folder_b_dup_run n p s c k show ?thesis by simp
qed

section \<open>Properties of the flatten-and-merge engine\<close>

lemma flat_order_simps [simp]:
  "flat_order [] = []"
  "flat_order ((k, b) # bs) = bookmarks b @ flat_order bs"
  "flat_order (xs @ ys) = flat_order xs @ flat_order ys"
  by (simp_all add: flat_order_def)

lemma key_set_append: "key_set L (xs @ ys) = key_set L xs \<union> key_set L ys"
  by (auto simp: key_set_def)

lemma dedupe_bookmarks_list:
  "dedupe_bookmarks L bs seen st = (new, seen', st') \<Longrightarrow>
     dedupe_list L seen bs = (new, seen')
     \<and> urls_kept st' = urls_kept st + int (length new)
     \<and> urls_removed st' + int (length new) = urls_removed st + int (length bs)
     \<and> folders_total st' = folders_total st"
proof (induction bs arbitrary: seen st new seen' st')
  case Nil
  then show ?case by simp
next
  case (Cons b bs)
  let ?k = "normalize_url L (href b)"
  show ?case
  proof (cases "?k \<noteq> [] \<and> ?k \<notin> seen")
    case True
    obtain r s2 t2 where
      r: "dedupe_bookmarks L bs (insert ?k seen) (st\<lparr>urls_kept := urls_kept st + 1\<rparr>) = (r, s2, t2)"
      by (cases "dedupe_bookmarks L bs (insert ?k seen) (st\<lparr>urls_kept := urls_kept st + 1\<rparr>)") auto
    from True r Cons.prems have e: "new = b # r" "seen' = s2" "st' = t2"
      by (auto simp: Let_def)
    from Cons.IH [OF r] e True show ?thesis by (simp add: Let_def)
  next
    case False
    then have "dedupe_bookmarks L bs seen (st\<lparr>urls_removed := urls_removed st + 1\<rparr>) = (new, seen', st')"
      using Cons.prems by (auto simp: Let_def)
    from Cons.IH [OF this] False show ?thesis by (auto simp: Let_def)
  qed
qed

lemma dedupe_buckets_list:
  "dedupe_buckets L bs seen st = (bs', seen', st') \<Longrightarrow>
     dedupe_list L seen (flat_order bs) = (flat_order bs', seen')
     \<and> urls_kept st' = urls_kept st + int (length (flat_order bs'))
     \<and> urls_removed st' + int (length (flat_order bs')) = urls_removed st + int (length (flat_order bs))
     \<and> map fst bs' = map fst bs
     \<and> map (\<lambda>kb. display_name (snd kb)) bs' = map (\<lambda>kb. display_name (snd kb)) bs
     \<and> map (\<lambda>kb. h3_attrs (snd kb)) bs' = map (\<lambda>kb. h3_attrs (snd kb)) bs
     \<and> folders_total st' = folders_total st + int (length (filter (\<lambda>kb. bookmarks (snd kb) \<noteq> []) bs'))"
proof (induction bs arbitrary: seen st bs' seen' st')
  case Nil
  then show ?case by simp
next
  case (Cons kb bs)
  obtain key b where kb: "kb = (key, b)" by (cases kb) auto
  obtain new s1 t1 where d: "dedupe_bookmarks L (bookmarks b) seen st = (new, s1, t1)"
    by (cases "dedupe_bookmarks L (bookmarks b) seen st") auto
  let ?t = "if new \<noteq> [] then t1\<lparr>folders_total := folders_total t1 + 1\<rparr> else t1"
  obtain r s2 t2 where r: "dedupe_buckets L bs s1 ?t = (r, s2, t2)"
    by (cases "dedupe_buckets L bs s1 ?t") auto
  from Cons.prems kb d r have e: "bs' = (key, b\<lparr>bookmarks := new\<rparr>) # r" "seen' = s2" "st' = t2"
    by auto
  note h1 = dedupe_bookmarks_list [OF d]
  note h2 = Cons.IH [OF r]
  from h1 h2 have dl: "dedupe_list L seen (flat_order (kb # bs)) = (flat_order bs', seen')"
    unfolding kb e by (simp add: dedupe_list_append)
  from h1 h2 have k: "urls_kept st' = urls_kept st + int (length (flat_order bs'))"
    unfolding e by (cases "new = []") auto
  from h1 h2 have rm: "urls_removed st' + int (length (flat_order bs'))
                        = urls_removed st + int (length (flat_order (kb # bs)))"
    unfolding kb e by (cases "new = []") auto
  from h1 h2 have ft: "folders_total st' = folders_total st
                        + int (length (filter (\<lambda>kb. bookmarks (snd kb) \<noteq> []) bs'))"
    unfolding e by (cases "new = []") auto
  from h2 have m: "map fst bs' = map fst (kb # bs)"
    "map (\<lambda>kb. display_name (snd kb)) bs' = map (\<lambda>kb. display_name (snd kb)) (kb # bs)"
    "map (\<lambda>kb. h3_attrs (snd kb)) bs' = map (\<lambda>kb. h3_attrs (snd kb)) (kb # bs)"
    unfolding kb e by simp_all
  from dl k rm ft m show ?case by blast
qed

lemma dedupe_buckets_nth:
  "dedupe_buckets L bs seen st = (bs', seen', st') \<Longrightarrow> i < length bs \<Longrightarrow>
     bookmarks (snd (bs' ! i))
       = survivors L (seen \<union> key_set L (flat_order (take i bs))) (bookmarks (snd (bs ! i)))"
proof (induction bs arbitrary: seen st bs' seen' st' i)
  case Nil
  then show ?case by simp
next
  case (Cons kb bs)
  obtain key b where kb: "kb = (key, b)" by (cases kb) auto
  obtain new s1 t1 where d: "dedupe_bookmarks L (bookmarks b) seen st = (new, s1, t1)"
    by (cases "dedupe_bookmarks L (bookmarks b) seen st") auto
  let ?t = "if new \<noteq> [] then t1\<lparr>folders_total := folders_total t1 + 1\<rparr> else t1"
  obtain r s2 t2 where r: "dedupe_buckets L bs s1 ?t = (r, s2, t2)"
    by (cases "dedupe_buckets L bs s1 ?t") auto
  from Cons.prems kb d r have e: "bs' = (key, b\<lparr>bookmarks := new\<rparr>) # r"
    by auto
  from dedupe_bookmarks_list [OF d] have dl: "dedupe_list L seen (bookmarks b) = (new, s1)"
    by simp
  from dl dedupe_list_survivors [of L seen "bookmarks b"]
  have n: "new = survivors L seen (bookmarks b)" by simp
  from dl dedupe_list_seen [of L seen "bookmarks b"]
  have s: "s1 = seen \<union> key_set L (bookmarks b)" by (simp add: key_set_def)
  show ?case
  proof (cases i)
    case 0
    with e n kb show ?thesis by (simp add: key_set_def)
  next
    case (Suc j)
    with Cons.prems have "j < length bs" by simp
    note h = Cons.IH [OF r this]
    have "seen \<union> key_set L (flat_order (take i (kb # bs)))
          = s1 \<union> key_set L (flat_order (take j bs))"
      using s Suc kb by (simp add: key_set_append Un_assoc)
    with h Suc e show ?thesis by simp
  qed
qed

lemma walk_foldl:
  "walk f r bs = foldl add_item bs (walk_items f r)"
  "walk_children cs bs = foldl add_item bs (children_items cs)"
  by (induction f r bs and cs bs rule: walk_walk_children.induct)
     (simp_all add: add_item_def)

lemma flat_order_update_Some:
  "map_of bs k = Some b \<Longrightarrow> bookmarks b' = bookmarks b @ xs \<Longrightarrow>
     length (flat_order (AList.update k b' bs)) = length (flat_order bs) + length xs"
  by (induction bs) (auto split: if_splits)

lemma flat_order_update_None:
  "map_of bs k = None \<Longrightarrow>
     length (flat_order (AList.update k b' bs)) = length (flat_order bs) + length (bookmarks b')"
  by (induction bs) (auto split: if_splits)

lemma add_to_bucket_length:
  "length (flat_order (add_to_bucket bs nm a items))
     = length (flat_order bs) + length (direct_bookmarks items)"
proof (cases "map_of bs (bucket_key nm)")
  case None
  then show ?thesis
    using flat_order_update_None [OF None]
    by (simp add: add_to_bucket_def Let_def)
next
  case (Some b)
  show ?thesis
  proof (cases "h3_attrs b = []")
    case True
    with Some show ?thesis
      using flat_order_update_Some [OF Some,
              of "b\<lparr>h3_attrs := a, bookmarks := bookmarks b @ direct_bookmarks items\<rparr>"
                 "direct_bookmarks items"]
      by (simp add: add_to_bucket_def Let_def)
  next
    case False
    with Some show ?thesis
      using flat_order_update_Some [OF Some,
              of "b\<lparr>bookmarks := bookmarks b @ direct_bookmarks items\<rparr>"
                 "direct_bookmarks items"]
      by (simp add: add_to_bucket_def Let_def)
  qed
qed

lemma direct_bookmarks_simps [simp]:
  "direct_bookmarks [] = []"
  "direct_bookmarks (BookmarkNode b # rest) = b # direct_bookmarks rest"
  "direct_bookmarks (FolderNode f # rest) = direct_bookmarks rest"
  "direct_bookmarks (UnknownNode # rest) = direct_bookmarks rest"
  by (simp_all add: direct_bookmarks_def)

lemma walk_length:
  "length (flat_order (walk f r bs)) = length (flat_order bs) + length (folder_bookmarks f)"
  "length (flat_order (walk_children cs bs)) + length (direct_bookmarks cs)
     = length (flat_order bs) + length (nodes_bookmarks cs)"
proof (induction f r bs and cs bs rule: walk_walk_children.induct)
  case (1 n a cs is_root bs)
  show ?case
  proof (cases is_root)
    case True
    with "1.IH" add_to_bucket_length [of bs None "[]" cs] show ?thesis by simp
  next
    case False
    with "1.IH" add_to_bucket_length [of bs "Some n" a cs] show ?thesis by simp
  qed
qed simp_all

lemma collect_flat_buckets_length:
  "length (flat_order (collect_flat_buckets root)) = length (folder_bookmarks root)"
  by (simp add: collect_flat_buckets_def walk_length)

lemma flat_order_update_Some_mset:
  "map_of bs k = Some b \<Longrightarrow> bookmarks b' = bookmarks b @ xs \<Longrightarrow>
     mset (flat_order (AList.update k b' bs)) = mset (flat_order bs) + mset xs"
  by (induction bs) (auto split: if_splits)

lemma flat_order_update_None_mset:
  "map_of bs k = None \<Longrightarrow>
     mset (flat_order (AList.update k b' bs)) = mset (flat_order bs) + mset (bookmarks b')"
  by (induction bs) (auto split: if_splits)

lemma add_to_bucket_mset:
  "mset (flat_order (add_to_bucket bs nm a items))
     = mset (flat_order bs) + mset (direct_bookmarks items)"
proof (cases "map_of bs (bucket_key nm)")
  case None
  then show ?thesis
    using flat_order_update_None_mset [OF None]
    by (simp add: add_to_bucket_def Let_def)
next
  case (Some b)
  show ?thesis
  proof (cases "h3_attrs b = []")
    case True
    with Some show ?thesis
      using flat_order_update_Some_mset [OF Some,
              of "b\<lparr>h3_attrs := a, bookmarks := bookmarks b @ direct_bookmarks items\<rparr>"
                 "direct_bookmarks items"]
      by (simp add: add_to_bucket_def Let_def)
  next
    case False
    with Some show ?thesis
      using flat_order_update_Some_mset [OF Some,
              of "b\<lparr>bookmarks := bookmarks b @ direct_bookmarks items\<rparr>"
                 "direct_bookmarks items"]
      by (simp add: add_to_bucket_def Let_def)
  qed
qed

lemma walk_mset:
  "mset (flat_order (walk f r bs)) = mset (flat_order bs) + mset (folder_bookmarks f)"
  "mset (flat_order (walk_children cs bs)) + mset (direct_bookmarks cs)
     = mset (flat_order bs) + mset (nodes_bookmarks cs)"
proof (induction f r bs and cs bs rule: walk_walk_children.induct)
  case (1 n a cs is_root bs)
  show ?case
  proof (cases is_root)
    case True
    with "1.IH" add_to_bucket_mset [of bs None "[]" cs] show ?thesis by simp
  next
    case False
    with "1.IH" add_to_bucket_mset [of bs "Some n" a cs] show ?thesis by simp
  qed
qed simp_all

lemma collect_flat_buckets_mset:
  "mset (flat_order (collect_flat_buckets root)) = mset (folder_bookmarks root)"
  by (simp add: collect_flat_buckets_def walk_mset)

lemma dedupe_list_nonempty_keys:
  "b \<in> set (fst (dedupe_list L seen bs)) \<Longrightarrow> normalize_url L (href b) \<noteq> []"
  by (induction bs arbitrary: seen) (auto simp: Let_def case_prod_beta split: if_splits)

lemma dedupe_list_empty_keys_removed:
  "length (fst (dedupe_list L seen bs)) + length (filter (\<lambda>b. normalize_url L (href b) = []) bs)
     \<le> length bs"
  by (induction bs arbitrary: seen) (auto simp: Let_def case_prod_beta le_SucI)

lemma normalize_url_empty: "normalize_url L u = [] \<Longrightarrow> u = []"
  by (auto simp: normalize_url_def normalize_url_body_def Let_def split: sum.splits if_splits)

lemma py_normalize_url_empty: "normalize_url py_urllib [] = []"
  by code_simp

lemma flat_ab_run:
  "dedupe_bookmarks_globally py_urllib (collect_flat_buckets tree_ab)
   = (flat_ab, \<lparr>urls_kept = 2, urls_removed = 1, folders_total = 2\<rparr>)"
  by code_simp

lemma flat_wpw_run:
  "dedupe_bookmarks_globally py_urllib (collect_flat_buckets tree_wpw)
   = (flat_wpw, \<lparr>urls_kept = 2, urls_removed = 1, folders_total = 1\<rparr>)"
  by code_simp

lemma globally_run:
  assumes "dedupe_bookmarks_globally L bs = (out, fs)"
  obtains seen' where "dedupe_buckets L bs {} \<lparr>urls_kept = 0, urls_removed = 0, folders_total = 0\<rparr> = (out, seen', fs)"
  using assms by (auto simp: dedupe_bookmarks_globally_def split: prod.splits)

lemma filter_length_mset:
  "mset xs = mset ys \<Longrightarrow> length (filter P xs) = length (filter P ys)"
proof -
  assume "mset xs = mset ys"
  then have "size (filter_mset P (mset xs)) = size (filter_mset P (mset ys))" by simp
  then show ?thesis by (simp only: mset_filter [symmetric] size_mset)
qed

lemma tree_empty_href_run:
  "prune_and_dedupe py_urllib tree_empty_href {} stats0
   = (Folder ''ROOT'' [] [], {}, \<lparr>urls_kept = 0, urls_removed = 1, folders_pruned = 1\<rparr>)"
  by code_simp

lemma flat_empty_href_run:
  "dedupe_bookmarks_globally py_urllib (collect_flat_buckets tree_empty_href)
   = ([(''__unsorted__'', \<lparr>display_name = ''Unsorted'', bookmarks = [], h3_attrs = []\<rparr>),
       (''a'', \<lparr>display_name = ''A'', bookmarks = [], h3_attrs = []\<rparr>)],
      \<lparr>urls_kept = 0, urls_removed = 1, folders_total = 0\<rparr>)"
  by code_simp

section \<open>Statistics\<close>

text \<open>
  C10. After either engine, \<open>urls_kept\<close> and \<open>urls_removed\<close> together have grown by
  the number of bookmarks of the tree: the prune engine counts each bookmark once, and
  the buckets of the flatten engine hold the bookmarks of the tree, each once. This
  holds also for a tree with children that are neither bookmarks nor folders, which
  both engines skip.
\<close>

theorem stats_conservation:
  "(prune_and_dedupe L f seen st = (f', seen', st') \<longrightarrow>
      urls_kept st' + urls_removed st'
        = urls_kept st + urls_removed st + int (length (folder_bookmarks f)))
   \<and> (dedupe_bookmarks_globally L (collect_flat_buckets f) = (out, fs) \<longrightarrow>
      urls_kept fs + urls_removed fs = int (length (folder_bookmarks f))
      \<and> mset (flat_order (collect_flat_buckets f)) = mset (folder_bookmarks f))"
proof (intro conjI impI)
  assume "prune_and_dedupe L f seen st = (f', seen', st')"
  from prune_stats(1) [OF this]
  show "urls_kept st' + urls_removed st'
        = urls_kept st + urls_removed st + int (length (folder_bookmarks f))"
    by simp
next
  assume a: "dedupe_bookmarks_globally L (collect_flat_buckets f) = (out, fs)"
  from a obtain sn where "dedupe_buckets L (collect_flat_buckets f) {}
       \<lparr>urls_kept = 0, urls_removed = 0, folders_total = 0\<rparr> = (out, sn, fs)"
    by (rule globally_run)
  from dedupe_buckets_list [OF this] collect_flat_buckets_length [of f]
  show "urls_kept fs + urls_removed fs = int (length (folder_bookmarks f))"
    by simp
next
  show "mset (flat_order (collect_flat_buckets f)) = mset (folder_bookmarks f)"
    by (rule collect_flat_buckets_mset)
qed

theorem stats_conservation_witness:
  "prune_and_dedupe py_urllib tree_ab {} stats0
     = (tree_ab_pruned, {''http://ex.com/y'', ''http://ex.com/x''},
        \<lparr>urls_kept = 2, urls_removed = 1, folders_pruned = 0\<rparr>)
   \<and> dedupe_bookmarks_globally py_urllib (collect_flat_buckets tree_ab)
     = (flat_ab, \<lparr>urls_kept = 2, urls_removed = 1, folders_total = 2\<rparr>)
   \<and> length (folder_bookmarks tree_ab) = 3
   \<and> mset (flat_order (collect_flat_buckets tree_ab)) = mset (folder_bookmarks tree_ab)"
proof -
  from stats_conservation [of py_urllib tree_ab "{}" stats0 tree_ab_pruned
         "{''http://ex.com/y'', ''http://ex.com/x''}"
         "\<lparr>urls_kept = 2, urls_removed = 1, folders_pruned = 0\<rparr>"
         flat_ab "\<lparr>urls_kept = 2, urls_removed = 1, folders_total = 2\<rparr>"]
    tree_ab_run flat_ab_run
  have "length (folder_bookmarks tree_ab) = 3"
    and "mset (flat_order (collect_flat_buckets tree_ab)) = mset (folder_bookmarks tree_ab)"
    by (simp_all add: stats0_def)
  with tree_ab_run flat_ab_run show ?thesis by simp
qed

section \<open>The flatten-and-merge engine: which duplicate survives\<close>

text \<open>
  C2, as the claim states it, fails: in \<open>tree_wpw\<close> the bookmark \<open>bmP\<close> comes before
  \<open>bmW\<close> in document order and both have the key \<open>http://ex.com/x\<close>, but the flatten
  engine keeps \<open>bmW\<close>, in the bucket \<open>work\<close>, and removes \<open>bmP\<close> from \<open>personal\<close>:
  the bucket \<open>work\<close> was discovered first.
\<close>

theorem flatten_document_order_counterexample:
  "folder_bookmarks tree_wpw = [bmA, bmP, bmW]
   \<and> normalize_url py_urllib (href bmP) = ''http://ex.com/x''
   \<and> normalize_url py_urllib (href bmW) = ''http://ex.com/x''
   \<and> dedupe_bookmarks_globally py_urllib (collect_flat_buckets tree_wpw)
     = (flat_wpw, \<lparr>urls_kept = 2, urls_removed = 1, folders_total = 1\<rparr>)
   \<and> flat_order flat_wpw = [bmA, bmW]"
proof -
  have "folder_bookmarks tree_wpw = [bmA, bmP, bmW]" by (simp add: tree_wpw_def)
  moreover have "normalize_url py_urllib (href bmP) = ''http://ex.com/x''" by code_simp
  moreover have "normalize_url py_urllib (href bmW) = ''http://ex.com/x''" by code_simp
  moreover have "flat_order flat_wpw = [bmA, bmW]" by (simp add: flat_wpw_def)
  ultimately show ?thesis using flat_wpw_run by simp
qed

section \<open>The empty key\<close>

text \<open>
  C9. \<open>normalize_url\<close> returns the empty string for no input but the empty string,
  whatever the library does, and returns it for the empty string with the library as
  modelled. No bookmark with an empty key is in the output of either engine, and every
  such bookmark is counted in \<open>urls_removed\<close>, also when it is the only bookmark.
\<close>

theorem empty_key_dropped:
  "(normalize_url L u = [] \<longrightarrow> u = [])
   \<and> (normalize_url py_urllib u = [] \<longleftrightarrow> u = [])
   \<and> (prune_and_dedupe L f seen st = (f', seen', st') \<longrightarrow>
        (\<forall>b \<in> set (folder_bookmarks f'). normalize_url L (href b) \<noteq> [])
        \<and> urls_removed st
            + int (length (filter (\<lambda>b. normalize_url L (href b) = []) (folder_bookmarks f)))
          \<le> urls_removed st')
   \<and> (dedupe_bookmarks_globally L (collect_flat_buckets f) = (out, fs) \<longrightarrow>
        (\<forall>b \<in> set (flat_order out). normalize_url L (href b) \<noteq> [])
        \<and> int (length (filter (\<lambda>b. normalize_url L (href b) = []) (folder_bookmarks f)))
          \<le> urls_removed fs)"
proof (intro conjI impI ballI)
  assume "normalize_url L u = []"
  then show "u = []" by (rule normalize_url_empty)
next
  show "normalize_url py_urllib u = [] \<longleftrightarrow> u = []"
    using normalize_url_empty [of py_urllib u] py_normalize_url_empty by auto
next
  fix b
  assume r: "prune_and_dedupe L f seen st = (f', seen', st')" and b: "b \<in> set (folder_bookmarks f')"
  from prune_bookmarks(1) [OF r] b
  have "b \<in> set (fst (dedupe_list L seen (folder_bookmarks f)))" by simp
  then show "normalize_url L (href b) \<noteq> []" by (rule dedupe_list_nonempty_keys)
next
  assume r: "prune_and_dedupe L f seen st = (f', seen', st')"
  from prune_bookmarks(1) [OF r]
  have "folder_bookmarks f' = fst (dedupe_list L seen (folder_bookmarks f))" by simp
  with dedupe_list_empty_keys_removed [of L seen "folder_bookmarks f"]
  have "length (folder_bookmarks f')
          + length (filter (\<lambda>b. normalize_url L (href b) = []) (folder_bookmarks f))
        \<le> length (folder_bookmarks f)" by simp
  with prune_stats(1) [OF r]
  show "urls_removed st
          + int (length (filter (\<lambda>b. normalize_url L (href b) = []) (folder_bookmarks f)))
        \<le> urls_removed st'" by linarith
next
  fix b
  assume a: "dedupe_bookmarks_globally L (collect_flat_buckets f) = (out, fs)"
    and b: "b \<in> set (flat_order out)"
  from a obtain sn where "dedupe_buckets L (collect_flat_buckets f) {}
       \<lparr>urls_kept = 0, urls_removed = 0, folders_total = 0\<rparr> = (out, sn, fs)"
    by (rule globally_run)
  from dedupe_buckets_list [OF this] b
  have "b \<in> set (fst (dedupe_list L {} (flat_order (collect_flat_buckets f))))" by simp
  then show "normalize_url L (href b) \<noteq> []" by (rule dedupe_list_nonempty_keys)
next
  let ?P = "\<lambda>b. normalize_url L (href b) = []"
  let ?bs = "flat_order (collect_flat_buckets f)"
  assume a: "dedupe_bookmarks_globally L (collect_flat_buckets f) = (out, fs)"
  from a obtain sn where "dedupe_buckets L (collect_flat_buckets f) {}
       \<lparr>urls_kept = 0, urls_removed = 0, folders_total = 0\<rparr> = (out, sn, fs)"
    by (rule globally_run)
  note h = dedupe_buckets_list [OF this]
  from h have "flat_order out = fst (dedupe_list L {} ?bs)" by simp
  with dedupe_list_empty_keys_removed [of L "{}" ?bs]
  have "length (flat_order out) + length (filter ?P ?bs) \<le> length ?bs" by simp
  moreover have "length (filter ?P ?bs) = length (filter ?P (folder_bookmarks f))"
    by (rule filter_length_mset) (rule collect_flat_buckets_mset)
  ultimately show "int (length (filter ?P (folder_bookmarks f))) \<le> urls_removed fs"
    using h by simp
qed

theorem empty_key_dropped_witness:
  "normalize_url py_urllib (href bm_empty) = []
   \<and> prune_and_dedupe py_urllib tree_empty_href {} stats0
     = (Folder ''ROOT'' [] [], {}, \<lparr>urls_kept = 0, urls_removed = 1, folders_pruned = 1\<rparr>)
   \<and> dedupe_bookmarks_globally py_urllib (collect_flat_buckets tree_empty_href)
     = ([(''__unsorted__'', \<lparr>display_name = ''Unsorted'', bookmarks = [], h3_attrs = []\<rparr>),
         (''a'', \<lparr>display_name = ''A'', bookmarks = [], h3_attrs = []\<rparr>)],
        \<lparr>urls_kept = 0, urls_removed = 1, folders_total = 0\<rparr>)
   \<and> length (filter (\<lambda>b. normalize_url py_urllib (href b) = []) (folder_bookmarks tree_empty_href)) = 1"
proof -
  note w = empty_key_dropped [of py_urllib "href bm_empty" tree_empty_href "{}" stats0
             "Folder ''ROOT'' [] []" "{}"
             "\<lparr>urls_kept = 0, urls_removed = 1, folders_pruned = 1\<rparr>"
             "[(''__unsorted__'', \<lparr>display_name = ''Unsorted'', bookmarks = [], h3_attrs = []\<rparr>),
               (''a'', \<lparr>display_name = ''A'', bookmarks = [], h3_attrs = []\<rparr>)]"
             "\<lparr>urls_kept = 0, urls_removed = 1, folders_total = 0\<rparr>"]
  have e: "href bm_empty = []" by (simp add: bm_empty_def)
  from w e have k: "normalize_url py_urllib (href bm_empty) = []" by simp
  have b: "folder_bookmarks tree_empty_href = [bm_empty]" by (simp add: tree_empty_href_def)
  from w tree_empty_href_run flat_empty_href_run
  have "int (length (filter (\<lambda>b. normalize_url py_urllib (href b) = []) (folder_bookmarks tree_empty_href))) \<le> 1"
    by simp
  moreover from b k
  have "length (filter (\<lambda>b. normalize_url py_urllib (href b) = []) (folder_bookmarks tree_empty_href)) = 1"
    by simp
  ultimately show ?thesis using k tree_empty_href_run flat_empty_href_run by simp
qed

section \<open>The buckets of a tree\<close>

lemma first_attrs_simps:
  "first_attrs [] = []"
  "first_attrs (a # as) = (if a \<noteq> [] then a else first_attrs as)"
  by (simp_all add: first_attrs_def)

lemma first_attrs_idem: "first_attrs (first_attrs as # bs) = first_attrs (as @ bs)"
  by (induction as) (auto simp: first_attrs_simps)

lemma add_item_map_of:
  "map_of (add_item bs w) k =
     (if k = item_key w then merged (map_of bs k) [w] else map_of bs k)"
proof (cases w)
  case (fields nm a items)
  show ?thesis
  proof (cases "map_of bs (bucket_key nm)")
    case None
    then show ?thesis
      by (simp add: fields add_item_def add_to_bucket_def Let_def update_conv' merged_def
            item_key_def item_attrs_def item_bookmarks_def first_attrs_simps)
  next
    case (Some b)
    then show ?thesis
      by (cases b)
         (simp add: fields add_item_def add_to_bucket_def Let_def update_conv' merged_def
            item_key_def item_attrs_def item_bookmarks_def first_attrs_simps)
  qed
qed

lemma add_item_keys:
  "map fst (add_item bs w) =
     (if item_key w \<in> set (map fst bs) then map fst bs else map fst bs @ [item_key w])"
  by (cases w) (simp add: add_item_def add_to_bucket_def Let_def update_keys item_key_def)

lemma merged_Cons: "merged (merged ob [w]) ws = merged ob (w # ws)"
proof (cases "ws = []")
  case True
  then show ?thesis by (simp add: merged_def)
next
  case False
  then show ?thesis
    by (cases ob) (simp_all add: merged_def first_attrs_simps)
qed

lemma foldl_add_item_map_of:
  "map_of (foldl add_item bs ws) k = merged (map_of bs k) (with_key k ws)"
proof (induction ws arbitrary: bs)
  case Nil
  show ?case by (simp add: merged_def with_key_def)
next
  case (Cons w ws)
  show ?case
  proof (cases "item_key w = k")
    case True
    then show ?thesis
      using Cons.IH [of "add_item bs w"]
      by (simp add: add_item_map_of merged_Cons with_key_def)
  next
    case False
    then show ?thesis
      using Cons.IH [of "add_item bs w"]
      by (auto simp: add_item_map_of with_key_def)
  qed
qed

lemma first_seen_append:
  "distinct ks \<Longrightarrow> first_seen (ks @ xs) = ks @ filter (\<lambda>x. x \<notin> set ks) (first_seen xs)"
proof (induction ks)
  case Nil
  show ?case by simp
next
  case (Cons k ks)
  then have "filter (\<lambda>x. x \<noteq> k) ks = ks" by (auto simp: filter_id_conv)
  with Cons show ?case by (auto simp: conj_commute intro: filter_cong)
qed

lemma first_seen_set: "set (first_seen ks) = set ks"
  by (induction ks) auto

lemma first_seen_distinct: "distinct (first_seen ks)"
  by (induction ks) (auto simp: first_seen_set)

lemma foldl_add_item_keys:
  "distinct (map fst bs) \<Longrightarrow>
     map fst (foldl add_item bs ws) = first_seen (map fst bs @ map item_key ws)"
proof (induction ws arbitrary: bs)
  case Nil
  then show ?case by (simp add: first_seen_append [of _ "[]", simplified])
next
  case (Cons w ws)
  let ?k = "item_key w"
  show ?case
  proof (cases "?k \<in> set (map fst bs)")
    case True
    then have e: "map fst (add_item bs w) = map fst bs" by (simp add: add_item_keys)
    have "filter (\<lambda>x. x \<notin> set (map fst bs)) (filter (\<lambda>x. x \<noteq> ?k) (first_seen (map item_key ws)))
          = filter (\<lambda>x. x \<notin> set (map fst bs)) (first_seen (map item_key ws))"
      using True by (auto intro: filter_cong)
    with Cons.IH [of "add_item bs w"] Cons.prems e True show ?thesis
      by (simp add: first_seen_append)
  next
    case False
    then have e: "map fst (add_item bs w) = map fst bs @ [?k]" by (simp add: add_item_keys)
    with Cons.prems False have "distinct (map fst (add_item bs w))" by simp
    from Cons.IH [OF this] e show ?thesis by simp
  qed
qed

lemma collect_foldl:
  "collect_flat_buckets root = foldl add_item init_buckets (walk_items root True)"
  by (simp add: collect_flat_buckets_def init_buckets_def walk_foldl)

lemma collect_keys:
  "map fst (collect_flat_buckets root)
     = first_seen (unsorted_key # map item_key (walk_items root True))"
  using foldl_add_item_keys [of init_buckets "walk_items root True"]
  by (simp add: collect_foldl init_buckets_def)

lemma collect_distinct: "distinct (map fst (collect_flat_buckets root))"
  by (simp only: collect_keys first_seen_distinct)

lemma collect_map_of:
  "map_of (collect_flat_buckets root) k
     = merged (map_of init_buckets k) (with_key k (walk_items root True))"
  by (simp only: collect_foldl foldl_add_item_map_of)

lemma norm_folder_name_Nil: "norm_folder_name [] = []"
  by (simp add: norm_folder_name_def strip_chars_def lstrip_chars_def rstrip_chars_def lower_def)

lemma item_key_unsorted:
  "item_key w \<noteq> unsorted_key \<Longrightarrow> \<exists>n a cs. w = (Some n, a, cs) \<and> n \<noteq> [] \<and> name_or (Some n) d = n"
  by (cases w; cases "fst w")
     (auto simp: item_key_def bucket_key_def Let_def norm_folder_name_Nil name_or_def)

lemma with_key_hd:
  "with_key k ws \<noteq> [] \<Longrightarrow> List.find (\<lambda>w. item_key w = k) ws = Some (hd (with_key k ws))"
  by (induction ws) (auto simp: with_key_def)

lemma collect_bucket:
  assumes "(k, b) \<in> set (collect_flat_buckets root)"
  shows "bookmarks b = concat (map item_bookmarks (with_key k (walk_items root True)))"
    and "h3_attrs b = first_attrs (map item_attrs (with_key k (walk_items root True)))"
    and "k = unsorted_key \<Longrightarrow> display_name b = ''Unsorted''"
    and "k \<noteq> unsorted_key \<Longrightarrow>
           \<exists>n a cs. List.find (\<lambda>w. item_key w = k) (walk_items root True) = Some (Some n, a, cs)
                    \<and> display_name b = n"
proof -
  let ?ws = "walk_items root True"
  let ?wk = "with_key k ?ws"
  from assms collect_distinct [of root]
  have m: "map_of (collect_flat_buckets root) k = Some b" by simp
  then have g: "merged (map_of init_buckets k) ?wk = Some b" by (simp only: collect_map_of)
  have u: "bookmarks b = concat (map item_bookmarks ?wk)
           \<and> h3_attrs b = first_attrs (map item_attrs ?wk)
           \<and> display_name b = ''Unsorted''" if "k = unsorted_key"
    using g that by (cases "?wk = []") (auto simp: merged_def init_buckets_def first_attrs_simps)
  have n: "bookmarks b = concat (map item_bookmarks ?wk)
           \<and> h3_attrs b = first_attrs (map item_attrs ?wk)
           \<and> ?wk \<noteq> [] \<and> display_name b = name_or (fst (hd ?wk)) ''Unsorted''" if "k \<noteq> unsorted_key"
    using g that by (cases "?wk = []") (auto simp: merged_def init_buckets_def first_attrs_simps)
  show "bookmarks b = concat (map item_bookmarks ?wk)" using u n by blast
  show "h3_attrs b = first_attrs (map item_attrs ?wk)" using u n by blast
  show "display_name b = ''Unsorted''" if "k = unsorted_key" using u that by blast
  show "\<exists>n a cs. List.find (\<lambda>w. item_key w = k) ?ws = Some (Some n, a, cs) \<and> display_name b = n"
    if "k \<noteq> unsorted_key"
  proof -
    from n [OF that] have ne: "?wk \<noteq> []" and d: "display_name b = name_or (fst (hd ?wk)) ''Unsorted''"
      by simp_all
    from ne have "hd ?wk \<in> set ?wk" by simp
    then have "item_key (hd ?wk) = k" by (simp add: with_key_def)
    with that have "item_key (hd ?wk) \<noteq> unsorted_key" by simp
    from item_key_unsorted [OF this, of "''Unsorted''"]
    obtain n a cs where h: "hd ?wk = (Some n, a, cs)" "name_or (Some n) ''Unsorted'' = n" by blast
    from d h have "display_name b = n" by simp
    with with_key_hd [OF ne] h show ?thesis by simp
  qed
qed

lemma collect_flat_order: "flat_order (collect_flat_buckets root) = bucket_order root"
proof -
  let ?ws = "walk_items root True"
  have "map (\<lambda>kb. bookmarks (snd kb)) (collect_flat_buckets root)
        = map (\<lambda>kb. concat (map item_bookmarks (with_key (fst kb) ?ws))) (collect_flat_buckets root)"
    by (rule map_cong [OF refl]) (auto simp: collect_bucket(1))
  also have "\<dots> = map (\<lambda>k. concat (map item_bookmarks (with_key k ?ws)))
                     (map fst (collect_flat_buckets root))"
    by (simp add: comp_def)
  finally show ?thesis
    by (simp add: flat_order_def bucket_order_def Let_def collect_keys)
qed

lemma dedupe_list_not_seen:
  "b \<in> set (fst (dedupe_list L seen bs)) \<Longrightarrow> normalize_url L (href b) \<notin> seen"
  by (induction bs arbitrary: seen) (auto simp: Let_def case_prod_beta split: if_splits)

lemma collect_pw: "collect_flat_buckets tree_pw = flat_pw_in"
  by code_simp

lemma flat_pw_run:
  "dedupe_bookmarks_globally py_urllib flat_pw_in
   = (flat_pw, \<lparr>urls_kept = 2, urls_removed = 1, folders_total = 2\<rparr>)"
  by code_simp

lemma collect_wpw: "collect_flat_buckets tree_wpw = flat_wpw_in"
  by code_simp

lemma tree_pw_run:
  "dedupe_bookmarks_globally py_urllib (collect_flat_buckets tree_pw)
   = (flat_pw, \<lparr>urls_kept = 2, urls_removed = 1, folders_total = 2\<rparr>)"
  by (simp only: collect_pw flat_pw_run)

section \<open>The flatten-and-merge engine: first in bucket order wins\<close>

text \<open>
  C2, amended. The buckets that \<open>collect_flat_buckets\<close> builds hold the bookmarks of
  the tree in bucket order: the buckets in the order of their discovery by the walk,
  \<open>Unsorted\<close> first, and in a bucket the direct bookmarks of the folders of its key,
  folder by folder in walk order; no bookmark is lost or added. Of the bookmarks with
  one non-empty key, the first in bucket order survives, in its bucket, and every later
  one is removed, whatever folder or bucket it is in: a bookmark that survives in a
  bucket has the key of no bookmark of a bucket discovered earlier.
\<close>

theorem flatten_first_in_bucket_order_wins:
  assumes "dedupe_bookmarks_globally L (collect_flat_buckets root) = (out, fs)"
  shows "flat_order (collect_flat_buckets root) = bucket_order root
       \<and> map fst (collect_flat_buckets root)
           = first_seen (unsorted_key # map item_key (walk_items root True))
       \<and> (\<forall>i < length (collect_flat_buckets root).
             bookmarks (snd (collect_flat_buckets root ! i))
               = concat (map item_bookmarks
                   (with_key (fst (collect_flat_buckets root ! i)) (walk_items root True))))
       \<and> mset (bucket_order root) = mset (folder_bookmarks root)
       \<and> flat_order out = survivors L {} (bucket_order root)
       \<and> map fst out = map fst (collect_flat_buckets root)
       \<and> (\<forall>i < length (collect_flat_buckets root).
             bookmarks (snd (out ! i))
               = survivors L (key_set L (flat_order (take i (collect_flat_buckets root))))
                   (bookmarks (snd (collect_flat_buckets root ! i))))
       \<and> (\<forall>k b. k \<noteq> []
                 \<and> List.find (\<lambda>x. normalize_url L (href x) = k) (bucket_order root) = Some b
              \<longrightarrow> filter (\<lambda>x. normalize_url L (href x) = k) (flat_order out) = [b])
       \<and> (\<forall>i j. j < i \<and> i < length (collect_flat_buckets root) \<longrightarrow>
             (\<forall>b \<in> set (bookmarks (snd (collect_flat_buckets root ! j))).
              \<forall>c \<in> set (bookmarks (snd (out ! i))).
                normalize_url L (href c) \<noteq> normalize_url L (href b)))
       \<and> urls_kept fs = int (length (flat_order out))
       \<and> urls_removed fs = int (length (bucket_order root)) - int (length (flat_order out))"
proof -
  let ?bs = "collect_flat_buckets root"
  let ?ws = "walk_items root True"
  from assms obtain sn where
    r: "dedupe_buckets L ?bs {} \<lparr>urls_kept = 0, urls_removed = 0, folders_total = 0\<rparr> = (out, sn, fs)"
    by (rule globally_run)
  note h = dedupe_buckets_list [OF r]
  have o: "flat_order ?bs = bucket_order root" by (rule collect_flat_order)
  have ks: "map fst ?bs = first_seen (unsorted_key # map item_key ?ws)" by (rule collect_keys)
  have ct: "bookmarks (snd (?bs ! i)) = concat (map item_bookmarks (with_key (fst (?bs ! i)) ?ws))"
    if "i < length ?bs" for i
  proof -
    from that have "(fst (?bs ! i), snd (?bs ! i)) \<in> set ?bs" by simp
    then show ?thesis by (rule collect_bucket(1))
  qed
  have ms: "mset (bucket_order root) = mset (folder_bookmarks root)"
    using collect_flat_buckets_mset [of root] by (simp only: o)
  from h have d: "dedupe_list L {} (bucket_order root) = (flat_order out, sn)" by (simp add: o)
  then have s: "flat_order out = survivors L {} (bucket_order root)"
    using dedupe_list_survivors [of L "{}" "bucket_order root"] by simp
  from h have m: "map fst out = map fst ?bs" by simp
  have n: "bookmarks (snd (out ! i))
             = survivors L (key_set L (flat_order (take i ?bs))) (bookmarks (snd (?bs ! i)))"
    if "i < length ?bs" for i
    using dedupe_buckets_nth [OF r that] by simp
  have f: "filter (\<lambda>x. normalize_url L (href x) = k) (flat_order out) = [b]"
    if "k \<noteq> []" "List.find (\<lambda>x. normalize_url L (href x) = k) (bucket_order root) = Some b" for k b
    using dedupe_list_filter_first [OF that(1) _ that(2), of "{}"] d by simp
  have x: "normalize_url L (href c) \<noteq> normalize_url L (href b)"
    if "j < i" "i < length ?bs" "b \<in> set (bookmarks (snd (?bs ! j)))"
       "c \<in> set (bookmarks (snd (out ! i)))" for i j b c
  proof -
    let ?seen = "key_set L (flat_order (take i ?bs))"
    from that(4) n [OF that(2)] dedupe_list_survivors [of L ?seen "bookmarks (snd (?bs ! i))"]
    have c: "c \<in> set (fst (dedupe_list L ?seen (bookmarks (snd (?bs ! i)))))" by simp
    from dedupe_list_not_seen [OF c] have ns: "normalize_url L (href c) \<notin> ?seen" .
    from dedupe_list_nonempty_keys [OF c] have ne: "normalize_url L (href c) \<noteq> []" .
    from that(1,2) have "?bs ! j \<in> set (take i ?bs)"
      by (metis in_set_conv_nth length_take min_less_iff_conj nth_take order_less_trans)
    with that(3) have "b \<in> set (flat_order (take i ?bs))"
      by (auto simp: flat_order_def)
    then have "normalize_url L (href b) = [] \<or> normalize_url L (href b) \<in> ?seen"
      by (auto simp: key_set_def)
    with ns ne show ?thesis by auto
  qed
  from h have c: "urls_kept fs = int (length (flat_order out))"
    "urls_removed fs = int (length (bucket_order root)) - int (length (flat_order out))"
    by (simp_all add: o)
  from o ks ct ms s m n f x c show ?thesis by blast
qed

theorem flatten_first_in_bucket_order_wins_witness:
  "dedupe_bookmarks_globally py_urllib (collect_flat_buckets tree_pw)
     = (flat_pw, \<lparr>urls_kept = 2, urls_removed = 1, folders_total = 2\<rparr>)
   \<and> folder_bookmarks tree_pw = [bmP, bmW, bmA]
   \<and> bucket_order tree_pw = [bmP, bmW, bmA]
   \<and> survivors py_urllib {} (bucket_order tree_pw) = [bmP, bmA]
   \<and> filter (\<lambda>x. normalize_url py_urllib (href x) = ''http://ex.com/x'') (flat_order flat_pw) = [bmP]
   \<and> bookmarks (snd (collect_flat_buckets tree_pw ! 1)) = [bmP]
   \<and> bookmarks (snd (flat_pw ! 2)) = [bmA]
   \<and> normalize_url py_urllib (href bmA) \<noteq> normalize_url py_urllib (href bmP)"
proof -
  note w = flatten_first_in_bucket_order_wins [OF tree_pw_run]
  have fb: "folder_bookmarks tree_pw = [bmP, bmW, bmA]" by (simp add: tree_pw_def)
  have fo: "flat_order (collect_flat_buckets tree_pw) = [bmP, bmW, bmA]"
    by (simp add: collect_pw flat_pw_in_def)
  from w fo have bo: "bucket_order tree_pw = [bmP, bmW, bmA]" by simp
  have fl: "flat_order flat_pw = [bmP, bmA]" by (simp add: flat_pw_def)
  from w fl have s: "survivors py_urllib {} (bucket_order tree_pw) = [bmP, bmA]" by simp
  have f: "List.find (\<lambda>x. normalize_url py_urllib (href x) = ''http://ex.com/x'')
             (bucket_order tree_pw) = Some bmP"
    unfolding bo by code_simp
  from w have a: "\<forall>k b. k \<noteq> []
                 \<and> List.find (\<lambda>x. normalize_url py_urllib (href x) = k) (bucket_order tree_pw) = Some b
              \<longrightarrow> filter (\<lambda>x. normalize_url py_urllib (href x) = k) (flat_order flat_pw) = [b]"
    by blast
  have k: "filter (\<lambda>x. normalize_url py_urllib (href x) = ''http://ex.com/x'') (flat_order flat_pw) = [bmP]"
    using spec [OF spec [OF a, of "''http://ex.com/x''"], of bmP] f by simp
  have l: "length (collect_flat_buckets tree_pw) = 3" by (simp add: collect_pw flat_pw_in_def)
  have b1: "bookmarks (snd (collect_flat_buckets tree_pw ! 1)) = [bmP]"
    by (simp add: collect_pw flat_pw_in_def)
  have b2: "bookmarks (snd (flat_pw ! 2)) = [bmA]" by (simp add: flat_pw_def)
  from w have x: "\<forall>i j. j < i \<and> i < length (collect_flat_buckets tree_pw) \<longrightarrow>
             (\<forall>b \<in> set (bookmarks (snd (collect_flat_buckets tree_pw ! j))).
              \<forall>c \<in> set (bookmarks (snd (flat_pw ! i))).
                normalize_url py_urllib (href c) \<noteq> normalize_url py_urllib (href b))"
    by blast
  have n: "normalize_url py_urllib (href bmA) \<noteq> normalize_url py_urllib (href bmP)"
    using spec [OF spec [OF x, of 2], of 1] l b1 b2 by simp
  from tree_pw_run fb bo s k b1 b2 n show ?thesis by simp
qed

section \<open>The flatten-and-merge engine: merged buckets and their metadata\<close>

text \<open>
  C4, as the claim states it, fails. In \<open>tree_attrs\<close> the folders \<open>Work\<close> and \<open>WORK\<close>
  have the normalized name \<open>work\<close>; the first has no attributes, and the bucket has the
  attributes of the second. In \<open>tree_dash\<close> the only folder is named \<open>-\<close>, its
  normalized name is empty, and its bucket is displayed as \<open>Unsorted\<close>.
\<close>

theorem bucket_first_seen_metadata_counterexample:
  "walk_items tree_attrs True
     = [(None, [], children tree_attrs),
        (Some ''Work'', [], [BookmarkNode bmA]),
        (Some ''WORK'', [(''ADD_DATE'', ''7'')], [BookmarkNode bmW])]
   \<and> norm_folder_name ''Work'' = ''work'' \<and> norm_folder_name ''WORK'' = ''work''
   \<and> collect_flat_buckets tree_attrs
     = [(''__unsorted__'', \<lparr>display_name = ''Unsorted'', bookmarks = [], h3_attrs = []\<rparr>),
        (''work'', \<lparr>display_name = ''Work'', bookmarks = [bmA, bmW],
                    h3_attrs = [(''ADD_DATE'', ''7'')]\<rparr>)]
   \<and> walk_items tree_dash True
     = [(None, [], children tree_dash), (Some ''-'', [], [BookmarkNode bmA])]
   \<and> norm_folder_name ''-'' = ''''
   \<and> collect_flat_buckets tree_dash
     = [(''__unsorted__'', \<lparr>display_name = ''Unsorted'', bookmarks = [bmA], h3_attrs = []\<rparr>)]"
proof -
  have "walk_items tree_attrs True
     = [(None, [], children tree_attrs),
        (Some ''Work'', [], [BookmarkNode bmA]),
        (Some ''WORK'', [(''ADD_DATE'', ''7'')], [BookmarkNode bmW])]"
    by (simp add: tree_attrs_def)
  moreover have "norm_folder_name ''Work'' = ''work''" by code_simp
  moreover have "norm_folder_name ''WORK'' = ''work''" by code_simp
  moreover have "collect_flat_buckets tree_attrs
     = [(''__unsorted__'', \<lparr>display_name = ''Unsorted'', bookmarks = [], h3_attrs = []\<rparr>),
        (''work'', \<lparr>display_name = ''Work'', bookmarks = [bmA, bmW],
                    h3_attrs = [(''ADD_DATE'', ''7'')]\<rparr>)]"
    by code_simp
  moreover have "walk_items tree_dash True
     = [(None, [], children tree_dash), (Some ''-'', [], [BookmarkNode bmA])]"
    by (simp add: tree_dash_def)
  moreover have "norm_folder_name ''-'' = ''''" by code_simp
  moreover have "collect_flat_buckets tree_dash
     = [(''__unsorted__'', \<lparr>display_name = ''Unsorted'', bookmarks = [bmA], h3_attrs = []\<rparr>)]"
    by code_simp
  ultimately show ?thesis by simp
qed

text \<open>
  C4, amended. The buckets have distinct keys, in the order of their discovery. Two
  folders whose names have equal normalized forms have one bucket, which holds the
  direct bookmarks of both; a bucket holds the direct bookmarks of all folders of its
  key, in walk order. Its attributes are those of the first folder of its key whose
  attributes are not empty, and empty when there is none. Under a key other than the
  reserved one its display name is the name of the first folder of that key; the bucket
  of the reserved key, which takes the root's bookmarks and the folders whose normalized
  name is empty, is displayed as \<open>Unsorted\<close>.
\<close>

theorem flatten_bucket_merging:
  assumes "bs = collect_flat_buckets root" and "ws = walk_items root True"
  shows "distinct (map fst bs)
       \<and> map fst bs = first_seen (unsorted_key # map item_key ws)
       \<and> (\<forall>n1 a1 c1 n2 a2 c2.
             (Some n1, a1, c1) \<in> set ws \<and> (Some n2, a2, c2) \<in> set ws
             \<and> norm_folder_name n1 = norm_folder_name n2 \<longrightarrow>
             (\<exists>b. map_of bs (bucket_key (Some n1)) = Some b
                  \<and> map_of bs (bucket_key (Some n2)) = Some b
                  \<and> set (direct_bookmarks c1) \<union> set (direct_bookmarks c2) \<subseteq> set (bookmarks b)))
       \<and> (\<forall>k b. (k, b) \<in> set bs \<longrightarrow>
             bookmarks b = concat (map item_bookmarks (with_key k ws))
             \<and> h3_attrs b = first_attrs (map item_attrs (with_key k ws))
             \<and> (k = unsorted_key \<longrightarrow> display_name b = ''Unsorted'')
             \<and> (k \<noteq> unsorted_key \<longrightarrow>
                  (\<exists>n a cs. List.find (\<lambda>w. item_key w = k) ws = Some (Some n, a, cs)
                           \<and> display_name b = n)))"
proof -
  have d: "distinct (map fst bs)" unfolding assms by (rule collect_distinct)
  have ks: "map fst bs = first_seen (unsorted_key # map item_key ws)"
    unfolding assms by (rule collect_keys)
  have bk: "bookmarks b = concat (map item_bookmarks (with_key k ws))
             \<and> h3_attrs b = first_attrs (map item_attrs (with_key k ws))
             \<and> (k = unsorted_key \<longrightarrow> display_name b = ''Unsorted'')
             \<and> (k \<noteq> unsorted_key \<longrightarrow>
                  (\<exists>n a cs. List.find (\<lambda>w. item_key w = k) ws = Some (Some n, a, cs)
                           \<and> display_name b = n))"
    if "(k, b) \<in> set bs" for k b
    using collect_bucket [of k b root] that unfolding assms by blast
  have mg: "\<exists>b. map_of bs (bucket_key (Some n1)) = Some b
                  \<and> map_of bs (bucket_key (Some n2)) = Some b
                  \<and> set (direct_bookmarks c1) \<union> set (direct_bookmarks c2) \<subseteq> set (bookmarks b)"
    if "(Some n1, a1, c1) \<in> set ws" "(Some n2, a2, c2) \<in> set ws"
       "norm_folder_name n1 = norm_folder_name n2" for n1 a1 c1 n2 a2 c2
  proof -
    let ?k = "bucket_key (Some n1)"
    from that(3) have e: "bucket_key (Some n2) = ?k" by (simp add: bucket_key_def)
    from that(1) have i1: "item_key (Some n1, a1, c1) = ?k" by (simp add: item_key_def)
    from that(2) e have i2: "item_key (Some n2, a2, c2) = ?k" by (simp add: item_key_def)
    from that(1) i1 have "?k \<in> set (map item_key ws)" by force
    then have "?k \<in> set (map fst bs)" by (simp add: ks first_seen_set)
    then obtain b where b: "(?k, b) \<in> set bs" by auto
    with d have m: "map_of bs ?k = Some b" by simp
    from bk [OF b] have c: "bookmarks b = concat (map item_bookmarks (with_key ?k ws))" by simp
    from that(1) i1 have "(Some n1, a1, c1) \<in> set (with_key ?k ws)" by (simp add: with_key_def)
    then have s1: "set (direct_bookmarks c1) \<subseteq> set (bookmarks b)"
      unfolding c by (force simp: item_bookmarks_def)
    from that(2) i2 have "(Some n2, a2, c2) \<in> set (with_key ?k ws)" by (simp add: with_key_def)
    then have s2: "set (direct_bookmarks c2) \<subseteq> set (bookmarks b)"
      unfolding c by (force simp: item_bookmarks_def)
    from m e s1 s2 show ?thesis by auto
  qed
  from d ks mg bk show ?thesis by blast
qed

lemma walk_items_wpw:
  "walk_items tree_wpw True
     = [(None, [], children tree_wpw),
        (Some ''Work'', [], [BookmarkNode bmA]),
        (Some ''Personal'', [], [BookmarkNode bmP]),
        (Some ''WORK '', [(''ADD_DATE'', ''7'')], [BookmarkNode bmW])]"
  by (simp add: tree_wpw_def)

theorem flatten_bucket_merging_witness:
  "flat_wpw_in = collect_flat_buckets tree_wpw
   \<and> walk_items tree_wpw True
     = [(None, [], children tree_wpw),
        (Some ''Work'', [], [BookmarkNode bmA]),
        (Some ''Personal'', [], [BookmarkNode bmP]),
        (Some ''WORK '', [(''ADD_DATE'', ''7'')], [BookmarkNode bmW])]
   \<and> norm_folder_name ''Work'' = norm_folder_name ''WORK ''
   \<and> map fst flat_wpw_in = [''__unsorted__'', ''work'', ''personal'']
   \<and> (''work'', work_bucket) \<in> set flat_wpw_in
   \<and> map_of flat_wpw_in (bucket_key (Some ''Work'')) = Some work_bucket
   \<and> map_of flat_wpw_in (bucket_key (Some ''WORK '')) = Some work_bucket
   \<and> concat (map item_bookmarks (with_key ''work'' (walk_items tree_wpw True))) = [bmA, bmW]
   \<and> first_attrs (map item_attrs (with_key ''work'' (walk_items tree_wpw True))) = [(''ADD_DATE'', ''7'')]
   \<and> List.find (\<lambda>w. item_key w = ''work'') (walk_items tree_wpw True)
       = Some (Some ''Work'', [], [BookmarkNode bmA])
   \<and> display_name work_bucket = ''Work''"
proof -
  note w = flatten_bucket_merging [OF collect_wpw [symmetric] refl]
  have nf: "norm_folder_name ''Work'' = ''work''" "norm_folder_name ''WORK '' = ''work''"
    by code_simp+
  have bk: "bucket_key (Some ''Work'') = ''work''" "bucket_key (Some ''WORK '') = ''work''"
    by (simp_all add: bucket_key_def nf)
  have m: "(''work'', work_bucket) \<in> set flat_wpw_in"
    by (simp add: flat_wpw_in_def work_bucket_def)
  have mo: "map_of flat_wpw_in ''work'' = Some work_bucket"
    by (simp add: flat_wpw_in_def work_bucket_def unsorted_key_def)
  from w have ks: "map fst flat_wpw_in
                     = first_seen (unsorted_key # map item_key (walk_items tree_wpw True))"
    by blast
  have ke: "map fst flat_wpw_in = [''__unsorted__'', ''work'', ''personal'']"
    by (simp add: flat_wpw_in_def)
  from w have a: "\<forall>k b. (k, b) \<in> set flat_wpw_in \<longrightarrow>
             bookmarks b = concat (map item_bookmarks (with_key k (walk_items tree_wpw True)))
             \<and> h3_attrs b = first_attrs (map item_attrs (with_key k (walk_items tree_wpw True)))
             \<and> (k = unsorted_key \<longrightarrow> display_name b = ''Unsorted'')
             \<and> (k \<noteq> unsorted_key \<longrightarrow>
                  (\<exists>n a cs. List.find (\<lambda>w. item_key w = k) (walk_items tree_wpw True)
                              = Some (Some n, a, cs)
                           \<and> display_name b = n))"
    by blast
  note i = spec [OF spec [OF a, of "''work''"], of work_bucket, THEN mp, OF m]
  from i have c: "concat (map item_bookmarks (with_key ''work'' (walk_items tree_wpw True))) = [bmA, bmW]"
    and h: "first_attrs (map item_attrs (with_key ''work'' (walk_items tree_wpw True))) = [(''ADD_DATE'', ''7'')]"
    by (simp_all add: work_bucket_def)
  have bn: "bucket_key None = ''__unsorted__''"
    by (simp add: bucket_key_def norm_folder_name_Nil unsorted_key_def)
  have f: "List.find (\<lambda>w. item_key w = ''work'') (walk_items tree_wpw True)
       = Some (Some ''Work'', [], [BookmarkNode bmA])"
    by (simp add: walk_items_wpw item_key_def bk bn)
  have dn: "display_name work_bucket = ''Work''" by (simp add: work_bucket_def)
  from collect_wpw walk_items_wpw nf ke m mo bk c h f dn show ?thesis by simp
qed

section \<open>The URL normalizer: trailing slashes\<close>

lemma takeWhile_eq_replicate:
  "takeWhile (\<lambda>x. x \<in> {c}) xs = replicate (length (takeWhile (\<lambda>x. x \<in> {c}) xs)) c"
  by (induction xs) auto

lemma rstrip_chars_decomp:
  "p = rstrip_chars {c} p @ replicate (length (takeWhile (\<lambda>x. x \<in> {c}) (rev p))) c"
proof -
  have "rev p = takeWhile (\<lambda>x. x \<in> {c}) (rev p) @ dropWhile (\<lambda>x. x \<in> {c}) (rev p)"
    by simp
  then have "p = rev (dropWhile (\<lambda>x. x \<in> {c}) (rev p)) @ rev (takeWhile (\<lambda>x. x \<in> {c}) (rev p))"
    by (metis rev_append rev_rev_ident)
  also have "rev (takeWhile (\<lambda>x. x \<in> {c}) (rev p))
             = replicate (length (takeWhile (\<lambda>x. x \<in> {c}) (rev p))) c"
    by (subst takeWhile_eq_replicate) simp
  finally show ?thesis by (simp add: rstrip_chars_def)
qed

lemma endswith_char: "endswith s [c] \<longleftrightarrow> s \<noteq> [] \<and> last s = c"
  by (cases s rule: rev_cases) (auto simp: endswith_def suffix_def)

lemma rstrip_chars_not_end: "\<not> endswith (rstrip_chars {c} p) [c]"
proof -
  let ?d = "dropWhile (\<lambda>x. x \<in> {c}) (rev p)"
  have "?d \<noteq> [] \<Longrightarrow> hd ?d \<noteq> c" using hd_dropWhile [of "\<lambda>x. x \<in> {c}" "rev p"] by simp
  then show ?thesis
    by (auto simp: endswith_char rstrip_chars_def last_rev)
qed

lemma rstrip_chars_end:
  "endswith p [c] \<Longrightarrow> 0 < length (takeWhile (\<lambda>x. x \<in> {c}) (rev p))"
  by (cases p rule: rev_cases) (auto simp: endswith_char)

lemma rstrip_chars_id: "\<not> endswith p [c] \<Longrightarrow> rstrip_chars {c} p = p"
  by (cases p rule: rev_cases) (auto simp: endswith_char rstrip_chars_def)

lemma normalize_path_single:
  assumes "q \<noteq> []" "\<not> endswith q ''/''"
  shows "normalize_path (q @ ''/'') = q"
proof -
  from assms have "last q \<noteq> CHR ''/''" by (simp add: endswith_char)
  with assms(1) have "dropWhile (\<lambda>x. x \<in> {CHR ''/''}) (rev q) = rev q"
    by (cases q rule: rev_cases) auto
  with assms(1) show ?thesis
    by (simp add: normalize_path_def endswith_char rstrip_chars_def)
qed

lemma normalize_url_body_path:
  assumes "urlsplit L u = Inr s" "parse_qsl L (query s) = Inr qp"
    "urlencode L (filter (\<lambda>(k, v). k \<notin> COMMON_TRACKING_PARAMS) qp) = Inr q"
  shows "normalize_url_body L u =
     (case urlunsplit L \<lparr>scheme = lower (scheme s), netloc = lower (netloc s),
                         path = normalize_path (path s), query = q, fragment = ''''\<rparr> of
        Inl e \<Rightarrow> Inl e | Inr r \<Rightarrow> Inr (if r \<noteq> [] then r else u))"
  using assms by (simp add: normalize_url_body_def)

lemma ex_slash_a: "normalize_url py_urllib ''http://ex.com/a/'' = ''http://ex.com/a''"
  by code_simp
lemma ex_a: "normalize_url py_urllib ''http://ex.com/a'' = ''http://ex.com/a''"
  by code_simp
lemma ex_root: "normalize_url py_urllib ''http://ex.com/'' = ''http://ex.com/''"
  by code_simp
lemma ex_bare: "normalize_url py_urllib ''http://ex.com'' = ''http://ex.com''"
  by code_simp
lemma ex_two_slashes: "normalize_url py_urllib ''http://ex.com/a//'' = ''http://ex.com/a''"
  by code_simp
lemma ex_split_two_slashes:
  "py_urlsplit ''http://ex.com/a//''
   = Inr \<lparr>scheme = ''http'', netloc = ''ex.com'', path = ''/a//'', query = '''', fragment = ''''\<rparr>"
  by code_simp
lemma ex_split_slash_a:
  "py_urlsplit ''http://ex.com/a/''
   = Inr \<lparr>scheme = ''http'', netloc = ''ex.com'', path = ''/a/'', query = '''', fragment = ''''\<rparr>"
  by code_simp

text \<open>
  C5, as the claim states it, fails: the parsed path of \<open>http://ex.com/a//\<close> is
  \<open>/a//\<close>, and \<open>normalize_url\<close> strips both trailing slashes, not a single one: the
  key is \<open>http://ex.com/a\<close>, not \<open>http://ex.com/a/\<close>.
\<close>

theorem single_trailing_slash_counterexample:
  "py_urlsplit ''http://ex.com/a//''
     = Inr \<lparr>scheme = ''http'', netloc = ''ex.com'', path = ''/a//'', query = '''', fragment = ''''\<rparr>
   \<and> normalize_path ''/a//'' = ''/a''
   \<and> normalize_url py_urllib ''http://ex.com/a//'' = ''http://ex.com/a''"
proof -
  have "normalize_path ''/a//'' = ''/a''"
    by (simp add: normalize_path_def endswith_char rstrip_chars_def)
  with ex_split_two_slashes ex_two_slashes show ?thesis by simp
qed

text \<open>
  C5, amended. For a parsed path that ends with a slash and is not exactly \<open>/\<close>,
  \<open>normalize_url\<close> reassembles the path without all of its trailing slashes: without
  the single one when the path ends with exactly one. The path \<open>/\<close> and a path that
  does not end with a slash are left as they are. So \<open>http://ex.com/a/\<close> and
  \<open>http://ex.com/a\<close> have the same key and \<open>http://ex.com/\<close> is unchanged.
\<close>

theorem trailing_slashes_stripped:
  "(endswith p ''/'' \<and> p \<noteq> ''/'' \<longrightarrow>
      (\<exists>n. 0 < n \<and> p = normalize_path p @ replicate n (CHR ''/''))
      \<and> \<not> endswith (normalize_path p) ''/'')
   \<and> (q \<noteq> [] \<and> \<not> endswith q ''/'' \<longrightarrow> normalize_path (q @ ''/'') = q)
   \<and> normalize_path ''/'' = ''/''
   \<and> (\<not> endswith p ''/'' \<longrightarrow> normalize_path p = p)
   \<and> (urlsplit L u = Inr s \<and> parse_qsl L (query s) = Inr qp
       \<and> urlencode L (filter (\<lambda>(k, v). k \<notin> COMMON_TRACKING_PARAMS) qp) = Inr qr \<longrightarrow>
       normalize_url_body L u =
         (case urlunsplit L \<lparr>scheme = lower (scheme s), netloc = lower (netloc s),
                             path = normalize_path (path s), query = qr, fragment = ''''\<rparr> of
            Inl e \<Rightarrow> Inl e | Inr r \<Rightarrow> Inr (if r \<noteq> [] then r else u)))
   \<and> normalize_url py_urllib ''http://ex.com/a/'' = normalize_url py_urllib ''http://ex.com/a''
   \<and> normalize_url py_urllib ''http://ex.com/'' = ''http://ex.com/''"
proof -
  have a: "(\<exists>n. 0 < n \<and> p = normalize_path p @ replicate n (CHR ''/''))
           \<and> \<not> endswith (normalize_path p) ''/''" if "endswith p ''/''" "p \<noteq> ''/''"
  proof -
    from that have e: "normalize_path p = rstrip_chars {CHR ''/''} p"
      by (simp add: normalize_path_def)
    from rstrip_chars_decomp [of p "CHR ''/''"] rstrip_chars_end [OF that(1)]
    have "\<exists>n. 0 < n \<and> p = rstrip_chars {CHR ''/''} p @ replicate n (CHR ''/'')" by blast
    with e rstrip_chars_not_end [of "CHR ''/''" p] show ?thesis by simp
  qed
  have b: "normalize_path (q @ ''/'') = q" if "q \<noteq> []" "\<not> endswith q ''/''"
    using that by (rule normalize_path_single)
  have c: "normalize_path ''/'' = ''/''" by (simp add: normalize_path_def)
  have d: "normalize_path p = p" if "\<not> endswith p ''/''"
    using that by (simp add: normalize_path_def)
  have e: "normalize_url_body L u =
         (case urlunsplit L \<lparr>scheme = lower (scheme s), netloc = lower (netloc s),
                             path = normalize_path (path s), query = qr, fragment = ''''\<rparr> of
            Inl e \<Rightarrow> Inl e | Inr r \<Rightarrow> Inr (if r \<noteq> [] then r else u))"
    if "urlsplit L u = Inr s" "parse_qsl L (query s) = Inr qp"
       "urlencode L (filter (\<lambda>(k, v). k \<notin> COMMON_TRACKING_PARAMS) qp) = Inr qr"
    using that by (rule normalize_url_body_path)
  have f: "normalize_url py_urllib ''http://ex.com/a/'' = normalize_url py_urllib ''http://ex.com/a''"
    by (simp only: ex_slash_a ex_a)
  from a b c d e f ex_root show ?thesis by blast
qed

theorem trailing_slashes_stripped_witness:
  "endswith ''/a//'' ''/'' \<and> ''/a//'' \<noteq> ''/''
   \<and> ''/a//'' = normalize_path ''/a//'' @ replicate 2 (CHR ''/'')
   \<and> \<not> endswith (normalize_path ''/a//'') ''/''
   \<and> normalize_path (''/a'' @ ''/'') = ''/a''
   \<and> \<not> endswith ''/a'' ''/'' \<and> normalize_path ''/a'' = ''/a''
   \<and> urlsplit py_urllib ''http://ex.com/a/''
     = Inr \<lparr>scheme = ''http'', netloc = ''ex.com'', path = ''/a/'', query = '''', fragment = ''''\<rparr>
   \<and> normalize_url_body py_urllib ''http://ex.com/a/'' = Inr ''http://ex.com/a''"
proof -
  note w = trailing_slashes_stripped [of "''/a//''" "''/a''" py_urllib "''http://ex.com/a/''"
     "\<lparr>scheme = ''http'', netloc = ''ex.com'', path = ''/a/'', query = '''', fragment = ''''\<rparr>"
     "[]" "''''"]
  have h: "endswith ''/a//'' ''/''" "''/a//'' \<noteq> ''/''" "\<not> endswith ''/a'' ''/''"
    by (simp_all add: endswith_char)
  from w h have n: "\<not> endswith (normalize_path ''/a//'') ''/''"
    and s: "normalize_path (''/a'' @ ''/'') = ''/a''"
    by simp_all
  have v: "normalize_path ''/a//'' = ''/a''"
    by (simp add: normalize_path_def endswith_char rstrip_chars_def)
  have us: "urlsplit py_urllib ''http://ex.com/a/''
     = Inr \<lparr>scheme = ''http'', netloc = ''ex.com'', path = ''/a/'', query = '''', fragment = ''''\<rparr>"
    by (simp add: py_urllib_def ex_split_slash_a)
  have pq: "parse_qsl py_urllib '''' = Inr []" by (simp add: py_urllib_def py_parse_qsl_def)
  have ue: "urlencode py_urllib [] = Inr ''''" by (simp add: py_urllib_def py_urlencode_def)
  have uu: "urlunsplit py_urllib \<lparr>scheme = lower ''http'', netloc = lower ''ex.com'',
               path = normalize_path ''/a/'', query = '''', fragment = ''''\<rparr> = Inr ''http://ex.com/a''"
    by code_simp
  from w us pq ue uu
  have b: "normalize_url_body py_urllib ''http://ex.com/a/'' = Inr ''http://ex.com/a''"
    by simp
  from trailing_slashes_stripped [of "''/a''" "''/a''" py_urllib "''http://ex.com/a/''"
     "\<lparr>scheme = ''http'', netloc = ''ex.com'', path = ''/a/'', query = '''', fragment = ''''\<rparr>"
     "[]" "''''"] h(3)
  have d: "normalize_path ''/a'' = ''/a''" by simp
  from h n s v us b d show ?thesis by (simp add: numeral_2_eq_2)
qed

section \<open>The URL normalizer: exceptions\<close>

lemma ex_bad_bracket: "py_urlsplit ''http://[ex.com/'' = Inl ValueError"
  by code_simp

text \<open>
  C8. \<open>normalize_url\<close> raises nothing: whichever of the four library calls raises,
  the exception leaves the \<open>try\<close> block and the result is the input, unmodified; every
  other result is the reassembled URL, which is not empty.
\<close>

theorem normalize_url_never_raises:
  "(normalize_url_body L u = Inl e \<longrightarrow> normalize_url L u = u)
   \<and> (urlsplit L u = Inl e \<longrightarrow> normalize_url L u = u)
   \<and> (urlsplit L u = Inr s \<and> parse_qsl L (query s) = Inl e \<longrightarrow> normalize_url L u = u)
   \<and> (urlsplit L u = Inr s \<and> parse_qsl L (query s) = Inr qp
       \<and> urlencode L (filter (\<lambda>(k, v). k \<notin> COMMON_TRACKING_PARAMS) qp) = Inl e \<longrightarrow>
       normalize_url L u = u)
   \<and> (urlsplit L u = Inr s \<and> parse_qsl L (query s) = Inr qp
       \<and> urlencode L (filter (\<lambda>(k, v). k \<notin> COMMON_TRACKING_PARAMS) qp) = Inr qr
       \<and> urlunsplit L \<lparr>scheme = lower (scheme s), netloc = lower (netloc s),
                        path = normalize_path (path s), query = qr, fragment = ''''\<rparr> = Inl e \<longrightarrow>
       normalize_url L u = u)
   \<and> (normalize_url L u = u
       \<or> (\<exists>r. normalize_url_body L u = Inr r \<and> r \<noteq> [] \<and> normalize_url L u = r))"
proof -
  have a: "normalize_url L u = u" if "normalize_url_body L u = Inl e"
    using that by (simp add: normalize_url_def)
  have b: "normalize_url L u = u" if "urlsplit L u = Inl e"
    using that by (simp add: normalize_url_def normalize_url_body_def)
  have c: "normalize_url L u = u" if "urlsplit L u = Inr s" "parse_qsl L (query s) = Inl e"
    using that by (simp add: normalize_url_def normalize_url_body_def)
  have d: "normalize_url L u = u" if "urlsplit L u = Inr s" "parse_qsl L (query s) = Inr qp"
       "urlencode L (filter (\<lambda>(k, v). k \<notin> COMMON_TRACKING_PARAMS) qp) = Inl e"
    using that by (simp add: normalize_url_def normalize_url_body_def)
  have f: "normalize_url L u = u" if "urlsplit L u = Inr s" "parse_qsl L (query s) = Inr qp"
       "urlencode L (filter (\<lambda>(k, v). k \<notin> COMMON_TRACKING_PARAMS) qp) = Inr qr"
       "urlunsplit L \<lparr>scheme = lower (scheme s), netloc = lower (netloc s),
                        path = normalize_path (path s), query = qr, fragment = ''''\<rparr> = Inl e"
    using that by (simp add: normalize_url_def normalize_url_body_def)
  have g: "normalize_url L u = u
       \<or> (\<exists>r. normalize_url_body L u = Inr r \<and> r \<noteq> [] \<and> normalize_url L u = r)"
  proof (cases "normalize_url_body L u")
    case (Inl x)
    then show ?thesis by (simp add: normalize_url_def)
  next
    case (Inr r)
    then have "r \<noteq> [] \<or> r = u"
      by (auto simp: normalize_url_body_def Let_def split: sum.splits if_splits)
    with Inr show ?thesis by (auto simp: normalize_url_def)
  qed
  from a b c d f g show ?thesis by blast
qed

theorem normalize_url_never_raises_witness:
  "urlsplit py_urllib ''http://[ex.com/'' = Inl ValueError
   \<and> normalize_url_body py_urllib ''http://[ex.com/'' = Inl ValueError
   \<and> normalize_url py_urllib ''http://[ex.com/'' = ''http://[ex.com/''"
proof -
  have s: "urlsplit py_urllib ''http://[ex.com/'' = Inl ValueError"
    by (simp add: py_urllib_def ex_bad_bracket)
  then have b: "normalize_url_body py_urllib ''http://[ex.com/'' = Inl ValueError"
    by (simp add: normalize_url_body_def)
  from normalize_url_never_raises [of py_urllib "''http://[ex.com/''" ValueError] s
  have "normalize_url py_urllib ''http://[ex.com/'' = ''http://[ex.com/''" by blast
  with s b show ?thesis by simp
qed

section \<open>The URL normalizer: equivalent URLs\<close>

lemma survives_empty_seen:
  "i < length ks \<Longrightarrow> survives ks {} i \<longleftrightarrow> ks ! i \<noteq> [] \<and> (\<forall>j<i. ks ! j \<noteq> ks ! i)"
  by (auto simp: survives_def in_set_conv_nth)

lemma survivors_by_key:
  "survivors L {} bs =
     map (\<lambda>i. bs ! i)
       (filter (\<lambda>i. normalize_url L (href (bs ! i)) \<noteq> []
                     \<and> (\<forall>j<i. normalize_url L (href (bs ! j)) \<noteq> normalize_url L (href (bs ! i))))
          [0..<length bs])"
proof -
  have "filter (survives (map (\<lambda>b. normalize_url L (href b)) bs) {}) [0..<length bs]
        = filter (\<lambda>i. normalize_url L (href (bs ! i)) \<noteq> []
                     \<and> (\<forall>j<i. normalize_url L (href (bs ! j)) \<noteq> normalize_url L (href (bs ! i))))
            [0..<length bs]"
    by (rule filter_cong [OF refl]) (simp add: survives_empty_seen)
  then show ?thesis by (simp add: survivors_def)
qed

lemma ex_main: "normalize_url py_urllib ''http://EX.com/a/?utm_source=x'' = ''http://ex.com/a''"
  by code_simp
lemma ex_all_tracking:
  "normalize_url py_urllib
     ''HTTP://Ex.Com/a/?utm_source=1&utm_medium=2&utm_campaign=3&utm_term=4&utm_content=5&utm_id=6&gclid=7&fbclid=8&mc_cid=9&mc_eid=10&igshid=11&ref=12&q=1#frag''
   = ''http://ex.com/a?q=1''"
  by code_simp
lemma ex_q: "normalize_url py_urllib ''http://ex.com/a?q=1'' = ''http://ex.com/a?q=1''"
  by code_simp
lemma ex_frag_a: "normalize_url py_urllib ''#a'' = ''#a''"
  by code_simp
lemma ex_frag_b: "normalize_url py_urllib ''#b'' = ''#b''"
  by code_simp
lemma ex_split_root:
  "py_urlsplit ''http://ex.com/''
   = Inr \<lparr>scheme = ''http'', netloc = ''ex.com'', path = ''/'', query = '''', fragment = ''''\<rparr>"
  by code_simp
lemma ex_split_bare:
  "py_urlsplit ''http://ex.com''
   = Inr \<lparr>scheme = ''http'', netloc = ''ex.com'', path = '''', query = '''', fragment = ''''\<rparr>"
  by code_simp
lemma ex_split_frag_a:
  "py_urlsplit ''#a''
   = Inr \<lparr>scheme = '''', netloc = '''', path = '''', query = '''', fragment = ''a''\<rparr>"
  by code_simp
lemma ex_split_frag_b:
  "py_urlsplit ''#b''
   = Inr \<lparr>scheme = '''', netloc = '''', path = '''', query = '''', fragment = ''b''\<rparr>"
  by code_simp
lemma ex_split_main:
  "py_urlsplit ''http://EX.com/a/?utm_source=x''
   = Inr \<lparr>scheme = ''http'', netloc = ''EX.com'', path = ''/a/'', query = ''utm_source=x'',
           fragment = ''''\<rparr>"
  by code_simp
lemma ex_split_a:
  "py_urlsplit ''http://ex.com/a''
   = Inr \<lparr>scheme = ''http'', netloc = ''ex.com'', path = ''/a'', query = '''', fragment = ''''\<rparr>"
  by code_simp
lemma ex_qsl_main: "py_parse_qsl ''utm_source=x'' = Inr [(''utm_source'', ''x'')]"
  by code_simp
lemma ex_unsplit_a:
  "py_urlunsplit \<lparr>scheme = ''http'', netloc = ''ex.com'', path = ''/a'', query = '''',
                   fragment = ''''\<rparr> = Inr ''http://ex.com/a''"
  by code_simp
lemma ex_lower: "lower ''http'' = ''http''" "lower ''EX.com'' = ''ex.com''" "lower ''ex.com'' = ''ex.com''"
  by code_simp+

text \<open>
  C6, as the claim states it, fails. \<open>http://ex.com/\<close> and \<open>http://ex.com\<close> differ
  only in the trailing slash and have different keys, as a path that is exactly \<open>/\<close>
  keeps its slash. \<open>#a\<close> and \<open>#b\<close> differ only in the fragment and have different
  keys, as a URL whose reassembled form is empty keeps its own text as key.
\<close>

theorem normalization_equivalence_counterexample:
  "py_urlsplit ''http://ex.com/''
     = Inr \<lparr>scheme = ''http'', netloc = ''ex.com'', path = ''/'', query = '''', fragment = ''''\<rparr>
   \<and> py_urlsplit ''http://ex.com''
     = Inr \<lparr>scheme = ''http'', netloc = ''ex.com'', path = '''', query = '''', fragment = ''''\<rparr>
   \<and> normalize_url py_urllib ''http://ex.com/'' = ''http://ex.com/''
   \<and> normalize_url py_urllib ''http://ex.com'' = ''http://ex.com''
   \<and> py_urlsplit ''#a''
     = Inr \<lparr>scheme = '''', netloc = '''', path = '''', query = '''', fragment = ''a''\<rparr>
   \<and> py_urlsplit ''#b''
     = Inr \<lparr>scheme = '''', netloc = '''', path = '''', query = '''', fragment = ''b''\<rparr>
   \<and> normalize_url py_urllib ''#a'' = ''#a''
   \<and> normalize_url py_urllib ''#b'' = ''#b''"
  by (simp only: ex_split_root ex_split_bare ex_root ex_bare ex_split_frag_a ex_split_frag_b
        ex_frag_a ex_frag_b simp_thms)

text \<open>
  C6, amended. Two URLs that parse, and whose parsed forms agree in the lower-cased
  scheme and authority, in the path without the trailing slashes of a path other than
  \<open>/\<close>, and in the query pairs whose key is not a tracking parameter, have the same
  key when the reassembled URL is not empty; the fragment plays no part. So
  \<open>http://EX.com/a/?utm_source=x\<close> and \<open>http://ex.com/a\<close> have the same key, and a
  URL with all twelve tracking parameters and a fragment has the key of the URL without
  them. In both engines a bookmark is kept exactly when its key is not empty and is the
  key of no earlier bookmark, in document order for the prune engine and in bucket order
  for the flatten engine, both started with an empty set \<open>seen\<close>.
\<close>

theorem normalization_equivalence:
  "(urlsplit L u1 = Inr s1 \<and> urlsplit L u2 = Inr s2
      \<and> lower (scheme s1) = lower (scheme s2) \<and> lower (netloc s1) = lower (netloc s2)
      \<and> normalize_path (path s1) = normalize_path (path s2)
      \<and> parse_qsl L (query s1) = Inr q1 \<and> parse_qsl L (query s2) = Inr q2
      \<and> filter (\<lambda>(k, v). k \<notin> COMMON_TRACKING_PARAMS) q1
          = filter (\<lambda>(k, v). k \<notin> COMMON_TRACKING_PARAMS) q2
      \<and> urlencode L (filter (\<lambda>(k, v). k \<notin> COMMON_TRACKING_PARAMS) q1) = Inr qr
      \<and> urlunsplit L \<lparr>scheme = lower (scheme s1), netloc = lower (netloc s1),
                        path = normalize_path (path s1), query = qr, fragment = ''''\<rparr> = Inr r
      \<and> r \<noteq> []
    \<longrightarrow> normalize_url L u1 = r \<and> normalize_url L u2 = r)
   \<and> (prune_and_dedupe L f {} st = (f', seen', st') \<longrightarrow>
        folder_bookmarks f' =
          map (\<lambda>i. folder_bookmarks f ! i)
            (filter (\<lambda>i. normalize_url L (href (folder_bookmarks f ! i)) \<noteq> []
                          \<and> (\<forall>j<i. normalize_url L (href (folder_bookmarks f ! j))
                                     \<noteq> normalize_url L (href (folder_bookmarks f ! i))))
               [0..<length (folder_bookmarks f)]))
   \<and> (dedupe_bookmarks_globally L (collect_flat_buckets f) = (out, fs) \<longrightarrow>
        flat_order out =
          map (\<lambda>i. bucket_order f ! i)
            (filter (\<lambda>i. normalize_url L (href (bucket_order f ! i)) \<noteq> []
                          \<and> (\<forall>j<i. normalize_url L (href (bucket_order f ! j))
                                     \<noteq> normalize_url L (href (bucket_order f ! i))))
               [0..<length (bucket_order f)]))
   \<and> normalize_url py_urllib ''http://EX.com/a/?utm_source=x''
       = normalize_url py_urllib ''http://ex.com/a''
   \<and> normalize_url py_urllib
         ''HTTP://Ex.Com/a/?utm_source=1&utm_medium=2&utm_campaign=3&utm_term=4&utm_content=5&utm_id=6&gclid=7&fbclid=8&mc_cid=9&mc_eid=10&igshid=11&ref=12&q=1#frag''
       = normalize_url py_urllib ''http://ex.com/a?q=1''"
proof -
  have a: "normalize_url L u1 = r \<and> normalize_url L u2 = r"
    if "urlsplit L u1 = Inr s1" "urlsplit L u2 = Inr s2"
       "lower (scheme s1) = lower (scheme s2)" "lower (netloc s1) = lower (netloc s2)"
       "normalize_path (path s1) = normalize_path (path s2)"
       "parse_qsl L (query s1) = Inr q1" "parse_qsl L (query s2) = Inr q2"
       "filter (\<lambda>(k, v). k \<notin> COMMON_TRACKING_PARAMS) q1
          = filter (\<lambda>(k, v). k \<notin> COMMON_TRACKING_PARAMS) q2"
       "urlencode L (filter (\<lambda>(k, v). k \<notin> COMMON_TRACKING_PARAMS) q1) = Inr qr"
       "urlunsplit L \<lparr>scheme = lower (scheme s1), netloc = lower (netloc s1),
                        path = normalize_path (path s1), query = qr, fragment = ''''\<rparr> = Inr r"
       "r \<noteq> []"
  proof -
    from that(1,6,9,10,11) have "normalize_url L u1 = r"
      by (simp add: normalize_url_def normalize_url_body_def)
    moreover from that(2,7) that(8) [symmetric] that(9) that(3,4,5) [symmetric] that(10,11)
    have "normalize_url L u2 = r"
      by (simp add: normalize_url_def normalize_url_body_def)
    ultimately show ?thesis by simp
  qed
  have b: "folder_bookmarks f' =
          map (\<lambda>i. folder_bookmarks f ! i)
            (filter (\<lambda>i. normalize_url L (href (folder_bookmarks f ! i)) \<noteq> []
                          \<and> (\<forall>j<i. normalize_url L (href (folder_bookmarks f ! j))
                                     \<noteq> normalize_url L (href (folder_bookmarks f ! i))))
               [0..<length (folder_bookmarks f)])"
    if "prune_and_dedupe L f {} st = (f', seen', st')"
  proof -
    from prune_bookmarks(1) [OF that] dedupe_list_survivors [of L "{}" "folder_bookmarks f"]
    have "folder_bookmarks f' = survivors L {} (folder_bookmarks f)" by simp
    then show ?thesis by (simp only: survivors_by_key)
  qed
  have c: "flat_order out =
          map (\<lambda>i. bucket_order f ! i)
            (filter (\<lambda>i. normalize_url L (href (bucket_order f ! i)) \<noteq> []
                          \<and> (\<forall>j<i. normalize_url L (href (bucket_order f ! j))
                                     \<noteq> normalize_url L (href (bucket_order f ! i))))
               [0..<length (bucket_order f)])"
    if "dedupe_bookmarks_globally L (collect_flat_buckets f) = (out, fs)"
  proof -
    from that obtain sn where
      "dedupe_buckets L (collect_flat_buckets f) {}
         \<lparr>urls_kept = 0, urls_removed = 0, folders_total = 0\<rparr> = (out, sn, fs)"
      by (rule globally_run)
    from dedupe_buckets_list [OF this] dedupe_list_survivors [of L "{}" "bucket_order f"]
    have "flat_order out = survivors L {} (bucket_order f)"
      by (simp add: collect_flat_order)
    then show ?thesis by (simp only: survivors_by_key)
  qed
  have d: "normalize_url py_urllib ''http://EX.com/a/?utm_source=x''
       = normalize_url py_urllib ''http://ex.com/a''"
    by (simp only: ex_main ex_a)
  have e: "normalize_url py_urllib
         ''HTTP://Ex.Com/a/?utm_source=1&utm_medium=2&utm_campaign=3&utm_term=4&utm_content=5&utm_id=6&gclid=7&fbclid=8&mc_cid=9&mc_eid=10&igshid=11&ref=12&q=1#frag''
       = normalize_url py_urllib ''http://ex.com/a?q=1''"
    by (simp only: ex_all_tracking ex_q)
  from a b c d e show ?thesis by blast
qed

theorem normalization_equivalence_witness:
  "urlsplit py_urllib ''http://EX.com/a/?utm_source=x''
     = Inr \<lparr>scheme = ''http'', netloc = ''EX.com'', path = ''/a/'', query = ''utm_source=x'',
             fragment = ''''\<rparr>
   \<and> urlsplit py_urllib ''http://ex.com/a''
     = Inr \<lparr>scheme = ''http'', netloc = ''ex.com'', path = ''/a'', query = '''', fragment = ''''\<rparr>
   \<and> parse_qsl py_urllib ''utm_source=x'' = Inr [(''utm_source'', ''x'')]
   \<and> parse_qsl py_urllib '''' = Inr []
   \<and> normalize_url py_urllib ''http://EX.com/a/?utm_source=x'' = ''http://ex.com/a''
   \<and> normalize_url py_urllib ''http://ex.com/a'' = ''http://ex.com/a''
   \<and> prune_and_dedupe py_urllib tree_ab {} stats0
     = (tree_ab_pruned, {''http://ex.com/y'', ''http://ex.com/x''},
        \<lparr>urls_kept = 2, urls_removed = 1, folders_pruned = 0\<rparr>)
   \<and> folder_bookmarks tree_ab_pruned
     = map (\<lambda>i. folder_bookmarks tree_ab ! i)
         (filter (\<lambda>i. normalize_url py_urllib (href (folder_bookmarks tree_ab ! i)) \<noteq> []
                       \<and> (\<forall>j<i. normalize_url py_urllib (href (folder_bookmarks tree_ab ! j))
                                  \<noteq> normalize_url py_urllib (href (folder_bookmarks tree_ab ! i))))
            [0..<length (folder_bookmarks tree_ab)])
   \<and> folder_bookmarks tree_ab_pruned = [bm1, bm2]
   \<and> dedupe_bookmarks_globally py_urllib (collect_flat_buckets tree_ab)
     = (flat_ab, \<lparr>urls_kept = 2, urls_removed = 1, folders_total = 2\<rparr>)
   \<and> flat_order flat_ab
     = map (\<lambda>i. bucket_order tree_ab ! i)
         (filter (\<lambda>i. normalize_url py_urllib (href (bucket_order tree_ab ! i)) \<noteq> []
                       \<and> (\<forall>j<i. normalize_url py_urllib (href (bucket_order tree_ab ! j))
                                  \<noteq> normalize_url py_urllib (href (bucket_order tree_ab ! i))))
            [0..<length (bucket_order tree_ab)])
   \<and> flat_order flat_ab = [bm1, bm2]"
proof -
  note w = normalization_equivalence [of py_urllib "''http://EX.com/a/?utm_source=x''"
      "\<lparr>scheme = ''http'', netloc = ''EX.com'', path = ''/a/'', query = ''utm_source=x'',
             fragment = ''''\<rparr>"
      "''http://ex.com/a''"
      "\<lparr>scheme = ''http'', netloc = ''ex.com'', path = ''/a'', query = '''', fragment = ''''\<rparr>"
      "[(''utm_source'', ''x'')]" "[]" "''''" "''http://ex.com/a''"
      tree_ab stats0 tree_ab_pruned "{''http://ex.com/y'', ''http://ex.com/x''}"
      "\<lparr>urls_kept = 2, urls_removed = 1, folders_pruned = 0\<rparr>"
      flat_ab "\<lparr>urls_kept = 2, urls_removed = 1, folders_total = 2\<rparr>"]
  have s1: "urlsplit py_urllib ''http://EX.com/a/?utm_source=x''
     = Inr \<lparr>scheme = ''http'', netloc = ''EX.com'', path = ''/a/'', query = ''utm_source=x'',
             fragment = ''''\<rparr>"
    by (simp add: py_urllib_def ex_split_main)
  have s2: "urlsplit py_urllib ''http://ex.com/a''
     = Inr \<lparr>scheme = ''http'', netloc = ''ex.com'', path = ''/a'', query = '''', fragment = ''''\<rparr>"
    by (simp add: py_urllib_def ex_split_a)
  have p1: "parse_qsl py_urllib ''utm_source=x'' = Inr [(''utm_source'', ''x'')]"
    by (simp add: py_urllib_def ex_qsl_main)
  have p2: "parse_qsl py_urllib '''' = Inr []" by (simp add: py_urllib_def py_parse_qsl_def)
  have np: "normalize_path ''/a/'' = ''/a''" "normalize_path ''/a'' = ''/a''"
    by (simp_all add: normalize_path_def endswith_char rstrip_chars_def)
  have fl: "filter (\<lambda>(k, v). k \<notin> COMMON_TRACKING_PARAMS) [(''utm_source'', ''x'')] = []"
    by (simp add: COMMON_TRACKING_PARAMS_def)
  have ue: "urlencode py_urllib [] = Inr ''''" by (simp add: py_urllib_def py_urlencode_def)
  have uu: "urlunsplit py_urllib \<lparr>scheme = ''http'', netloc = ''ex.com'', path = ''/a'',
              query = '''', fragment = ''''\<rparr> = Inr ''http://ex.com/a''"
    by (simp add: py_urllib_def ex_unsplit_a)
  from w s1 s2 p1 p2 np fl ue uu ex_lower
  have n: "normalize_url py_urllib ''http://EX.com/a/?utm_source=x'' = ''http://ex.com/a''"
          "normalize_url py_urllib ''http://ex.com/a'' = ''http://ex.com/a''"
    by simp_all
  from w tree_ab_run
  have e1: "folder_bookmarks tree_ab_pruned
     = map (\<lambda>i. folder_bookmarks tree_ab ! i)
         (filter (\<lambda>i. normalize_url py_urllib (href (folder_bookmarks tree_ab ! i)) \<noteq> []
                       \<and> (\<forall>j<i. normalize_url py_urllib (href (folder_bookmarks tree_ab ! j))
                                  \<noteq> normalize_url py_urllib (href (folder_bookmarks tree_ab ! i))))
            [0..<length (folder_bookmarks tree_ab)])"
    by blast
  from w flat_ab_run
  have e2: "flat_order flat_ab
     = map (\<lambda>i. bucket_order tree_ab ! i)
         (filter (\<lambda>i. normalize_url py_urllib (href (bucket_order tree_ab ! i)) \<noteq> []
                       \<and> (\<forall>j<i. normalize_url py_urllib (href (bucket_order tree_ab ! j))
                                  \<noteq> normalize_url py_urllib (href (bucket_order tree_ab ! i))))
            [0..<length (bucket_order tree_ab)])"
    by blast
  have v1: "folder_bookmarks tree_ab_pruned = [bm1, bm2]" by (simp add: tree_ab_pruned_def)
  have v2: "flat_order flat_ab = [bm1, bm2]" by (simp add: flat_ab_def)
  show ?thesis
    by (intro conjI) (fact s1 s2 p1 p2 n tree_ab_run e1 v1 flat_ab_run e2 v2)+
qed

end
